theory Spec2Isabelle
  imports Complex_Main "HOL-Library.Char_ord" "HOL-Library.List_Lexorder" "HOL-Library.Sublist"
begin

section \<open>Errors\<close>

text \<open>
  Every exception the modelled code can raise is a value. A function that may raise
  returns \<open>error + 'a\<close>, with \<open>Inl\<close> for the exception.
\<close>

datatype error = NotImplementedError | ValueError | KeyError | TypeError

section \<open>Python string primitives used by main.py\<close>

text \<open>
  Strings are lists of characters. The timestamps of the data set are ASCII, so one
  \<open>char\<close> is one Python character. Python's slices never raise: \<open>x[:n]\<close> is
  \<open>take n x\<close>, \<open>x[i:j]\<close> is \<open>take (j - i) (drop i x)\<close>, and \<open>x[-3:]\<close> is the last three
  characters, or all of \<open>x\<close> when it has fewer.
\<close>

definition py_last3 :: "string \<Rightarrow> string" where
  "py_last3 x = drop (length x - 3) x"

definition is_digit :: "char \<Rightarrow> bool" where
  "is_digit c = (CHR ''0'' \<le> c \<and> c \<le> CHR ''9'')"

definition digit_val :: "char \<Rightarrow> nat" where
  "digit_val c = of_char c - 48"

text \<open>
  \<open>int(s)\<close> on a string: surrounding whitespace is stripped, one sign is allowed, and the
  rest must be decimal digits, where single underscores may separate digits. Anything
  else raises ValueError. \<open>int_body\<close> reads the digits; its flag says whether the
  previous character was a digit. In an ASCII string the whitespace that \<open>int\<close> strips
  is tab, line feed, vertical tab, form feed, carriage return and space; the separators
  0x1C to 0x1F are not stripped there.
\<close>

definition py_isspace :: "char \<Rightarrow> bool" where
  "py_isspace c = (c \<in> set [CHR 0x09, CHR 0x0A, CHR 0x0B, CHR 0x0C, CHR 0x0D, CHR 0x20])"

definition py_strip :: "string \<Rightarrow> string" where
  "py_strip s = rev (dropWhile py_isspace (rev (dropWhile py_isspace s)))"

fun int_body :: "bool \<Rightarrow> nat \<Rightarrow> string \<Rightarrow> nat option" where
  "int_body pd acc [] = (if pd then Some acc else None)"
| "int_body pd acc (c # cs) =
     (if is_digit c then int_body True (10 * acc + digit_val c) cs
      else if c = CHR ''_'' \<and> pd then int_body False acc cs
      else None)"

definition py_int :: "string \<Rightarrow> error + int" where
  "py_int s =
     (case py_strip s of
        [] \<Rightarrow> Inl ValueError
      | c # cs \<Rightarrow>
          if c = CHR ''-'' then
            (case int_body False 0 cs of None \<Rightarrow> Inl ValueError | Some n \<Rightarrow> Inr (- int n))
          else if c = CHR ''+'' then
            (case int_body False 0 cs of None \<Rightarrow> Inl ValueError | Some n \<Rightarrow> Inr (int n))
          else
            (case int_body False 0 (c # cs) of None \<Rightarrow> Inl ValueError | Some n \<Rightarrow> Inr (int n)))"

text \<open>
  \<open>str(n)\<close> for a natural number, and the format \<open>:02d\<close>: at least two characters,
  padded with zeros, where the sign of a negative number counts as one of them.
\<close>

definition digit_char :: "nat \<Rightarrow> char" where
  "digit_char n = ''0123456789'' ! n"

fun str_nat :: "nat \<Rightarrow> string" where
  "str_nat n = (if n < 10 then [digit_char n] else str_nat (n div 10) @ [digit_char (n mod 10)])"

declare str_nat.simps [simp del]

definition format_02d :: "int \<Rightarrow> string" where
  "format_02d n =
     (if n < 0 then CHR ''-'' # str_nat (nat (- n))
      else if n < 10 then CHR ''0'' # str_nat (nat n)
      else str_nat (nat n))"

section \<open>Time-window assignment: calc_aggregation_datetime (main.py)\<close>

definition DATE_CHANGE_WINTER :: string where
  "DATE_CHANGE_WINTER = ''2017-10-29T00:00:00.000+02''"

text \<open>
  \<open>Series.apply(f)\<close> calls \<open>f\<close> on each element in order; the first exception ends the
  call. \<open>Series.replace({old: new})\<close> replaces the elements equal to \<open>old\<close>.
\<close>

fun series_apply :: "('a \<Rightarrow> error + 'b) \<Rightarrow> 'a list \<Rightarrow> error + 'b list" where
  "series_apply f [] = Inr []"
| "series_apply f (x # xs) =
     (case f x of
        Inl e \<Rightarrow> Inl e
      | Inr y \<Rightarrow> (case series_apply f xs of Inl e \<Rightarrow> Inl e | Inr ys \<Rightarrow> Inr (y # ys)))"

definition series_replace :: "'a \<Rightarrow> 'a \<Rightarrow> 'a list \<Rightarrow> 'a list" where
  "series_replace old new xs = map (\<lambda>v. if v = old then new else v) xs"

text \<open>The five lambdas of \<open>calc_aggregation_datetime\<close>, one for each aggregation level.\<close>

definition agg_minute :: "string \<Rightarrow> error + string" where
  "agg_minute x = Inr (take 16 x @ '':00.000'' @ py_last3 x)"

definition agg_10minutes :: "string \<Rightarrow> error + string" where
  "agg_10minutes x = Inr (take 15 x @ ''0:00.000'' @ py_last3 x)"

definition agg_15minutes :: "string \<Rightarrow> error + string" where
  "agg_15minutes x =
     (case py_int (take 2 (drop 14 x)) of
        Inl e \<Rightarrow> Inl e
      | Inr m \<Rightarrow> Inr (take 14 x @ format_02d (m div 15 * 15) @ '':00.000'' @ py_last3 x))"

definition agg_1hour :: "string \<Rightarrow> error + string" where
  "agg_1hour x = Inr (take 13 x @ '':00:00.000'' @ py_last3 x)"

definition agg_1day :: "string \<Rightarrow> error + string" where
  "agg_1day x = Inr (take 11 x @ ''00:00:00.000'' @ py_last3 x)"

definition calc_aggregation_datetime :: "string list \<Rightarrow> string \<Rightarrow> error + string list" where
  "calc_aggregation_datetime datetimes aggregation =
     (if aggregation = ''minute'' then series_apply agg_minute datetimes
      else if aggregation = ''10minutes'' then series_apply agg_10minutes datetimes
      else if aggregation = ''15minutes'' then series_apply agg_15minutes datetimes
      else if aggregation = ''1hour'' then series_apply agg_1hour datetimes
      else if aggregation = ''1day'' then
        (case series_apply agg_1day datetimes of
           Inl e \<Rightarrow> Inl e
         | Inr result \<Rightarrow>
             Inr (series_replace (butlast DATE_CHANGE_WINTER @ ''1'') DATE_CHANGE_WINTER result))
      else Inl NotImplementedError)"

section \<open>The fixed-width timestamp format\<close>

text \<open>
  The timestamps of the data set have the shape \<open>YYYY-MM-DDTHH:MM:SS.mmm+HH\<close>: 26
  characters, with the fields at fixed positions. \<open>slice i j x\<close> is Python's \<open>x[i:j]\<close>,
  and \<open>dec\<close> reads a string of digits as a decimal number.
\<close>

definition slice :: "nat \<Rightarrow> nat \<Rightarrow> string \<Rightarrow> string" where
  "slice i j x = take (j - i) (drop i x)"

definition all_digits :: "string \<Rightarrow> bool" where
  "all_digits s = list_all is_digit s"

definition dec :: "string \<Rightarrow> nat" where
  "dec s = foldl (\<lambda>a c. 10 * a + digit_val c) 0 s"

definition year_of :: "string \<Rightarrow> nat" where "year_of x = dec (slice 0 4 x)"
definition month_of :: "string \<Rightarrow> nat" where "month_of x = dec (slice 5 7 x)"
definition day_of :: "string \<Rightarrow> nat" where "day_of x = dec (slice 8 10 x)"
definition hour_of :: "string \<Rightarrow> nat" where "hour_of x = dec (slice 11 13 x)"
definition minute_of :: "string \<Rightarrow> nat" where "minute_of x = dec (slice 14 16 x)"
definition second_of :: "string \<Rightarrow> nat" where "second_of x = dec (slice 17 19 x)"
definition milli_of :: "string \<Rightarrow> nat" where "milli_of x = dec (slice 20 23 x)"

definition date_part :: "string \<Rightarrow> string" where "date_part x = slice 0 10 x"
definition hour_part :: "string \<Rightarrow> string" where "hour_part x = slice 11 13 x"
definition offset_part :: "string \<Rightarrow> string" where "offset_part x = slice 23 26 x"

definition is_leap :: "nat \<Rightarrow> bool" where
  "is_leap y = (y mod 4 = 0 \<and> (y mod 100 \<noteq> 0 \<or> y mod 400 = 0))"

definition days_in_month :: "nat \<Rightarrow> nat \<Rightarrow> nat" where
  "days_in_month y m =
     (if m = 2 then (if is_leap y then 29 else 28)
      else if m = 4 \<or> m = 6 \<or> m = 9 \<or> m = 11 then 30 else 31)"

definition valid_timestamp :: "string \<Rightarrow> bool" where
  "valid_timestamp x =
     (length x = 26 \<and>
      all_digits (slice 0 4 x) \<and> slice 4 5 x = ''-'' \<and>
      all_digits (slice 5 7 x) \<and> slice 7 8 x = ''-'' \<and>
      all_digits (slice 8 10 x) \<and> slice 10 11 x = ''T'' \<and>
      all_digits (slice 11 13 x) \<and> slice 13 14 x = '':'' \<and>
      all_digits (slice 14 16 x) \<and> slice 16 17 x = '':'' \<and>
      all_digits (slice 17 19 x) \<and> slice 19 20 x = ''.'' \<and>
      all_digits (slice 20 23 x) \<and>
      (slice 23 24 x = ''+'' \<or> slice 23 24 x = ''-'') \<and>
      all_digits (slice 24 26 x) \<and>
      1 \<le> year_of x \<and> 1 \<le> month_of x \<and> month_of x \<le> 12 \<and>
      1 \<le> day_of x \<and> day_of x \<le> days_in_month (year_of x) (month_of x) \<and>
      hour_of x \<le> 23 \<and> minute_of x \<le> 59 \<and> second_of x \<le> 59)"

text \<open>
  \<open>mk_ts\<close> writes a timestamp from its twenty characters that are not fixed separators.
  Every valid timestamp has this form.
\<close>

definition mk_ts :: "char \<Rightarrow> char \<Rightarrow> char \<Rightarrow> char \<Rightarrow> char \<Rightarrow> char \<Rightarrow> char \<Rightarrow> char \<Rightarrow> char \<Rightarrow> char \<Rightarrow>
    char \<Rightarrow> char \<Rightarrow> char \<Rightarrow> char \<Rightarrow> char \<Rightarrow> char \<Rightarrow> char \<Rightarrow> char \<Rightarrow> char \<Rightarrow> char \<Rightarrow> string" where
  "mk_ts y1 y2 y3 y4 m1 m2 d1 d2 h1 h2 n1 n2 s1 s2 k1 k2 k3 sg o1 o2 =
     [y1, y2, y3, y4, CHR ''-'', m1, m2, CHR ''-'', d1, d2, CHR ''T'', h1, h2, CHR '':'',
      n1, n2, CHR '':'', s1, s2, CHR ''.'', k1, k2, k3, sg, o1, o2]"

text \<open>The aggregation levels that \<open>calc_aggregation_datetime\<close> accepts.\<close>

definition supported_aggregations :: "string list" where
  "supported_aggregations = [''minute'', ''10minutes'', ''15minutes'', ''1hour'', ''1day'']"

section \<open>Calendar arithmetic\<close>

text \<open>
  The day count of Python's \<open>datetime\<close> (the proleptic Gregorian ordinal, 0001-01-01 is
  day 1), which \<open>datetime.weekday()\<close> is computed from:
  \<^verbatim>\<open>
  def _days_before_year(year):
      y = year - 1
      return y*365 + y//4 - y//100 + y//400
  def _days_before_month(year, month):
      return _DAYS_BEFORE_MONTH[month] + (month > 2 and _is_leap(year))
  def _ymd2ord(year, month, day):
      return _days_before_year(year) + _days_before_month(year, month) + day
  def weekday(self):
      return (self.toordinal() + 6) % 7
  \<close>
  A \<open>datetime\<close> object always has a month from 1 to 12, so the table is never read
  out of range.
\<close>

definition days_before_year :: "nat \<Rightarrow> int" where
  "days_before_year year = (let y = int year - 1 in y * 365 + y div 4 - y div 100 + y div 400)"

definition DAYS_BEFORE_MONTH :: "int list" where
  "DAYS_BEFORE_MONTH = [-1, 0, 31, 59, 90, 120, 151, 181, 212, 243, 273, 304, 334]"

definition days_before_month :: "nat \<Rightarrow> nat \<Rightarrow> int" where
  "days_before_month year month =
     DAYS_BEFORE_MONTH ! month + (if month > 2 \<and> is_leap year then 1 else 0)"

definition ymd2ord :: "nat \<Rightarrow> nat \<Rightarrow> nat \<Rightarrow> int" where
  "ymd2ord year month day = days_before_year year + days_before_month year month + int day"

text \<open>
  The point in time a timestamp denotes, in milliseconds: the local date and time of
  day, minus the UTC offset of the suffix. \<open>t1\<close> is chronologically earlier than or equal
  to \<open>t2\<close> when \<open>instant_ms t1 \<le> instant_ms t2\<close>.
\<close>

definition offset_hours :: "string \<Rightarrow> int" where
  "offset_hours x =
     (if slice 23 24 x = ''-'' then - int (dec (slice 24 26 x)) else int (dec (slice 24 26 x)))"

definition instant_ms :: "string \<Rightarrow> int" where
  "instant_ms x =
     ((((ymd2ord (year_of x) (month_of x) (day_of x) * 24 + int (hour_of x) - offset_hours x) * 60
        + int (minute_of x)) * 60 + int (second_of x)) * 1000 + int (milli_of x))"

text \<open>The numeric fields of a timestamp, from the year down to the milliseconds.\<close>

definition fields_of :: "string \<Rightarrow> nat list" where
  "fields_of x = [year_of x, month_of x, day_of x, hour_of x, minute_of x, second_of x, milli_of x]"

text \<open>The number of days of a year.\<close>

definition days_in_year :: "nat \<Rightarrow> int" where
  "days_in_year y = (if is_leap y then 366 else 365)"

section \<open>Weekday of a window identifier: weekday (custom_features.py)\<close>

text \<open>
  \<open>weekday(x)\<close> is \<open>dateutil.parser.parse(x).weekday() + 1\<close>. The parser belongs to
  the dateutil library, not to this repository, so it is a parameter of the model: a
  function from the string to a \<open>datetime\<close> or an exception. \<open>datetime.weekday()\<close>
  reads only the year, the month and the day, which are the fields the record keeps.
\<close>

record datetime =
  dt_year :: nat
  dt_month :: nat
  dt_day :: nat

definition toordinal :: "datetime \<Rightarrow> int" where
  "toordinal dt = ymd2ord (dt_year dt) (dt_month dt) (dt_day dt)"

definition dt_weekday :: "datetime \<Rightarrow> int" where
  "dt_weekday dt = (toordinal dt + 6) mod 7"

definition weekday :: "(string \<Rightarrow> error + datetime) \<Rightarrow> string \<Rightarrow> error + int" where
  "weekday parse x = (case parse x of Inl e \<Rightarrow> Inl e | Inr dt \<Rightarrow> Inr (dt_weekday dt + 1))"

section \<open>Tables: the pandas operations the code uses\<close>

text \<open>
  A cell of a table is a float, the float NaN (a missing value), a string, a
  boolean or an integer. Floats are modelled as real numbers: rounding, overflow and
  infinities are outside the model. A table has row labels (its index), column names,
  and its rows, each with one cell for every column.
\<close>

datatype pyvalue = FloatV real | NaN | StrV string | BoolV bool | IntV int

record dataframe =
  df_index :: "pyvalue list"
  df_columns :: "string list"
  df_rows :: "pyvalue list list"

definition wf_dataframe :: "dataframe \<Rightarrow> bool" where
  "wf_dataframe d =
     (distinct (df_columns d) \<and> length (df_index d) = length (df_rows d)
      \<and> list_all (\<lambda>r. length r = length (df_columns d)) (df_rows d))"

fun index_of :: "'a \<Rightarrow> 'a list \<Rightarrow> nat option" where
  "index_of x [] = None"
| "index_of x (y # ys) = (if x = y then Some 0 else map_option Suc (index_of x ys))"

text \<open>\<open>df[[c1, ..., cn]]\<close>: the named columns, in the order asked; KeyError if one is missing.\<close>

fun column_positions :: "string list \<Rightarrow> string list \<Rightarrow> error + nat list" where
  "column_positions cols [] = Inr []"
| "column_positions cols (c # cs) =
     (case index_of c cols of
        None \<Rightarrow> Inl KeyError
      | Some i \<Rightarrow> (case column_positions cols cs of Inl e \<Rightarrow> Inl e | Inr is \<Rightarrow> Inr (i # is)))"

definition select_columns :: "dataframe \<Rightarrow> string list \<Rightarrow> error + dataframe" where
  "select_columns d names =
     (case column_positions (df_columns d) names of
        Inl e \<Rightarrow> Inl e
      | Inr is \<Rightarrow> Inr (d\<lparr>df_columns := names, df_rows := map (\<lambda>r. map (\<lambda>i. r ! i) is) (df_rows d)\<rparr>))"

text \<open>
  \<open>df[c] = values\<close>: an existing column keeps its place and gets the new values; a new
  column is added as the last one.
\<close>

definition set_column :: "dataframe \<Rightarrow> string \<Rightarrow> pyvalue list \<Rightarrow> dataframe" where
  "set_column d c vs =
     (case index_of c (df_columns d) of
        Some i \<Rightarrow> d\<lparr>df_rows := map (\<lambda>(r, v). r[i := v]) (zip (df_rows d) vs)\<rparr>
      | None \<Rightarrow> d\<lparr>df_columns := df_columns d @ [c],
                  df_rows := map (\<lambda>(r, v). r @ [v]) (zip (df_rows d) vs)\<rparr>)"

text \<open>\<open>df[mask]\<close>: the rows, with their labels, where the mask is true, in their order.\<close>

definition filter_rows :: "dataframe \<Rightarrow> bool list \<Rightarrow> dataframe" where
  "filter_rows d keep =
     d\<lparr>df_index := map fst (filter snd (zip (df_index d) keep)),
       df_rows := map fst (filter snd (zip (df_rows d) keep))\<rparr>"

text \<open>
  \<open>df.insert(loc, column, value)\<close>: the new column at position \<open>loc\<close>; ValueError if the
  name is already a column.
\<close>

definition insert_column :: "dataframe \<Rightarrow> nat \<Rightarrow> string \<Rightarrow> pyvalue list \<Rightarrow> error + dataframe" where
  "insert_column d loc c vs =
     (if c \<in> set (df_columns d) then Inl ValueError
      else Inr (d\<lparr>df_columns := take loc (df_columns d) @ c # drop loc (df_columns d),
                  df_rows := map (\<lambda>(r, v). take loc r @ v # drop loc r) (zip (df_rows d) vs)\<rparr>))"

text \<open>
  A cell read as a number: NaN is no number, a boolean counts as 0 or 1, and a string
  makes the numeric operations raise TypeError.
\<close>

fun num_of :: "pyvalue \<Rightarrow> error + real option" where
  "num_of (FloatV r) = Inr (Some r)"
| "num_of NaN = Inr None"
| "num_of (IntV i) = Inr (Some (real_of_int i))"
| "num_of (BoolV b) = Inr (Some (if b then 1 else 0))"
| "num_of (StrV s) = Inl TypeError"

section \<open>Machine state filter: machine_off (custom_features.py), remove_machine_off_data (main.py)\<close>

text \<open>
  \<open>.max(axis=1)\<close> is the largest number of a row, skipping NaN, and NaN if the row has
  no number. \<open>.abs() <= threshold\<close> is false for NaN.
\<close>

definition row_max :: "real option list \<Rightarrow> real option" where
  "row_max vs =
     (case List.map_filter id vs of
        [] \<Rightarrow> None
      | x # xs \<Rightarrow> Some (fold max xs x))"

definition abs_le :: "real option \<Rightarrow> real \<Rightarrow> bool" where
  "abs_le v threshold = (case v of None \<Rightarrow> False | Some r \<Rightarrow> \<bar>r\<bar> \<le> threshold)"

definition machine_off :: "dataframe \<Rightarrow> real \<Rightarrow> error + bool list" where
  "machine_off data machine_off_threshold =
     (if ''I2_A'' \<in> set (df_columns data) then
        (case select_columns data [''I1_A'', ''I2_A'', ''I3_A''] of
           Inl e \<Rightarrow> Inl e
         | Inr sel \<Rightarrow>
             series_apply
               (\<lambda>r. case series_apply num_of r of
                       Inl e \<Rightarrow> Inl e
                     | Inr vs \<Rightarrow> Inr (abs_le (row_max vs) machine_off_threshold))
               (df_rows sel))
      else
        (let target = (if ''IAVR_A'' \<in> set (df_columns data) then ''IAVR_A'' else ''I1_A'') in
         case select_columns data [target] of
           Inl e \<Rightarrow> Inl e
         | Inr sel \<Rightarrow>
             series_apply
               (\<lambda>r. case series_apply num_of r of
                       Inl e \<Rightarrow> Inl e
                     | Inr vs \<Rightarrow> Inr (abs_le (hd vs) machine_off_threshold))
               (df_rows sel)))"

text \<open>
  \<open>remove_machine_off_data\<close> stores the mask as column \<open>machine_off\<close>, keeps the rows
  where the stored mask is false, and selects all columns but the last. (The log line is
  left out; the column read back by \<open>data['machine_off']\<close> is the mask just stored.)
  The function is modelled by the table it returns: that the assignment also adds the
  column to the table of the caller is not part of the model.
\<close>

definition remove_machine_off_data :: "dataframe \<Rightarrow> real \<Rightarrow> error + dataframe" where
  "remove_machine_off_data data machine_off_threshold =
     (case machine_off data machine_off_threshold of
        Inl e \<Rightarrow> Inl e
      | Inr off \<Rightarrow>
          (let data1 = set_column data ''machine_off'' (map BoolV off);
               data2 = filter_rows data1 (map Not off)
           in select_columns data2 (butlast (df_columns data1))))"

section \<open>The weekday column: extract_features_from_file (main.py), its last step\<close>

text \<open>
  After tsfresh has computed the feature matrix \<open>feature_data\<close> (rows labelled by
  window identifier), the function applies \<open>weekday\<close> to every row label and inserts
  the result as column \<open>weekday\<close> at position 0. A row label that is no string makes
  the parser raise TypeError.
\<close>

definition weekday_of_label :: "(string \<Rightarrow> error + datetime) \<Rightarrow> pyvalue \<Rightarrow> error + pyvalue" where
  "weekday_of_label parse v =
     (case v of
        StrV s \<Rightarrow> (case weekday parse s of Inl e \<Rightarrow> Inl e | Inr k \<Rightarrow> Inr (IntV k))
      | _ \<Rightarrow> Inl TypeError)"

definition add_weekday_feature :: "(string \<Rightarrow> error + datetime) \<Rightarrow> dataframe \<Rightarrow> error + dataframe" where
  "add_weekday_feature parse feature_data =
     (case series_apply (weekday_of_label parse) (df_index feature_data) of
        Inl e \<Rightarrow> Inl e
      | Inr weekday_data \<Rightarrow> insert_column feature_data 0 ''weekday'' weekday_data)"

section \<open>Feature calculators (custom_features.py)\<close>

text \<open>
  A calculator is called with a Python list, a numpy array or a pandas Series of
  floats. Its first statement,
  \<^verbatim>\<open>if not isinstance(x, (np.ndarray, pd.Series)): x = np.asarray(x)\<close>,
  turns a list into an array and leaves the other two as they are. The elements are
  real numbers here: rounding, NaN elements, and arrays of integers (whose sums and
  products wrap around at 64 bits) are outside the model.
\<close>

datatype pyseq = PyList "real list" | NdArray "real list" | PdSeries "real list"

fun as_array :: "pyseq \<Rightarrow> pyseq" where
  "as_array (PyList xs) = NdArray xs"
| "as_array (NdArray xs) = NdArray xs"
| "as_array (PdSeries xs) = PdSeries xs"

fun elements :: "pyseq \<Rightarrow> real list" where
  "elements (PyList xs) = xs"
| "elements (NdArray xs) = xs"
| "elements (PdSeries xs) = xs"

text \<open>
  The numpy and pandas reductions the calculators call. The mean of no elements is NaN
  (numpy gives a warning, no exception). \<open>np.max\<close> and \<open>np.min\<close> of an array without
  elements raise ValueError; for a Series they call \<open>Series.max\<close> and \<open>Series.min\<close>, which
  return NaN when there is no element.
\<close>

definition np_mean :: "real list \<Rightarrow> pyvalue" where
  "np_mean xs = (if xs = [] then NaN else FloatV (sum_list xs / real (length xs)))"

fun np_max :: "pyseq \<Rightarrow> error + pyvalue" where
  "np_max (PdSeries xs) = (if xs = [] then Inr NaN else Inr (FloatV (fold max (tl xs) (hd xs))))"
| "np_max x = (if elements x = [] then Inl ValueError
               else Inr (FloatV (fold max (tl (elements x)) (hd (elements x)))))"

fun np_min :: "pyseq \<Rightarrow> error + pyvalue" where
  "np_min (PdSeries xs) = (if xs = [] then Inr NaN else Inr (FloatV (fold min (tl xs) (hd xs))))"
| "np_min x = (if elements x = [] then Inl ValueError
               else Inr (FloatV (fold min (tl (elements x)) (hd (elements x)))))"

text \<open>
  \<open>a != b\<close> on floats is true as soon as one side is NaN. \<open>sum(x == v)\<close> counts the
  elements equal to \<open>v\<close>, and no element is equal to NaN.
\<close>

definition float_ne :: "pyvalue \<Rightarrow> pyvalue \<Rightarrow> bool" where
  "float_ne a b = (a = NaN \<or> b = NaN \<or> a \<noteq> b)"

definition count_equal :: "real list \<Rightarrow> pyvalue \<Rightarrow> int" where
  "count_equal xs v = (case v of FloatV r \<Rightarrow> int (length (filter (\<lambda>e. e = r) xs)) | _ \<Rightarrow> 0)"

text \<open>
  \<open>crest_factor\<close>: \<open>np.max(np.abs(x)) / np.sqrt(np.mean(np.square(x)))\<close>. When all elements
  are zero the float division is 0/0, which is NaN.
\<close>

definition crest_factor :: "pyseq \<Rightarrow> error + pyvalue" where
  "crest_factor x0 =
     (let x = as_array x0; xs = elements x in
      if length xs < 1 then Inr NaN
      else
        (let peak = fold max (map abs (tl xs)) \<bar>hd xs\<bar>;
             rms = sqrt (sum_list (map (\<lambda>v. v * v) xs) / real (length xs))
         in if rms = 0 then Inr NaN else Inr (FloatV (peak / rms))))"

definition percentage_non_zero_values :: "pyseq \<Rightarrow> error + pyvalue" where
  "percentage_non_zero_values x0 =
     (let x = as_array x0 in
      Inr (np_mean (map (\<lambda>v. if v \<noteq> 0 then 1 else 0) (elements x))))"

definition num_states :: "pyseq \<Rightarrow> error + pyvalue" where
  "num_states x0 = (let x = as_array x0 in Inr (IntV (int (length (remdups (elements x))))))"

definition num_maxima :: "pyseq \<Rightarrow> error + pyvalue" where
  "num_maxima x0 =
     (let x = as_array x0 in
      case np_max x of
        Inl e \<Rightarrow> Inl e
      | Inr maximum \<Rightarrow>
          if float_ne maximum NaN then Inr (IntV (count_equal (elements x) maximum)) else Inr NaN)"

definition num_minima :: "pyseq \<Rightarrow> error + pyvalue" where
  "num_minima x0 =
     (let x = as_array x0 in
      case np_min x of
        Inl e \<Rightarrow> Inl e
      | Inr minimum \<Rightarrow>
          if float_ne minimum NaN then Inr (IntV (count_equal (elements x) minimum)) else Inr NaN)"

definition linear_weighted_average :: "pyseq \<Rightarrow> error + pyvalue" where
  "linear_weighted_average x0 =
     (let x = as_array x0; n = length (elements x) in
      if n < 1 then Inr NaN
      else Inr (FloatV (2 / real (n * (n + 1))
                        * sum_list (map2 (\<lambda>i v. real i * v) [1..<n + 1] (elements x)))))"

definition quadratic_weighted_average :: "pyseq \<Rightarrow> error + pyvalue" where
  "quadratic_weighted_average x0 =
     (let x = as_array x0; n = length (elements x) in
      if n < 1 then Inr NaN
      else Inr (FloatV (6 / real (n * (n + 1) * (2 * n + 1))
                        * sum_list (map2 (\<lambda>i v. real (i ^ 2) * v) [1..<n + 1] (elements x)))))"

text \<open>
  \<open>number_crossing_mean\<close> calls \<open>number_crossing_m\<close> of the tsfresh library with the mean
  of the sequence; the library function is a parameter.
\<close>

definition number_crossing_mean ::
    "(pyseq \<Rightarrow> pyvalue \<Rightarrow> error + pyvalue) \<Rightarrow> pyseq \<Rightarrow> error + pyvalue" where
  "number_crossing_mean number_crossing_m x0 =
     (let x = as_array x0 in number_crossing_m x (np_mean (elements x)))"

section \<open>Properties\<close>

subsection \<open>Digits\<close>

lemma is_digit_iff: "is_digit c \<longleftrightarrow> c \<in> set ''0123456789''"
proof
  assume "is_digit c"
  then have b: "48 \<le> (of_char c :: nat)" "(of_char c :: nat) \<le> 57"
    by (simp_all add: is_digit_def less_eq_char_def)
  then have "(of_char c :: nat) \<in> {48,49,50,51,52,53,54,55,56,57}" by (simp; arith)
  then have "(of_char c :: nat) \<in> of_char ` set ''0123456789''" by simp
  then show "c \<in> set ''0123456789''" by (auto simp del: set_simps)
next
  assume "c \<in> set ''0123456789''"
  then show "is_digit c" by (auto simp: is_digit_def)
qed

lemma digit_val_lt: "is_digit c \<Longrightarrow> digit_val c < 10"
  by (auto simp: is_digit_iff digit_val_def)

lemma digit_not_special:
  "is_digit c \<Longrightarrow> \<not> py_isspace c \<and> c \<noteq> CHR ''-'' \<and> c \<noteq> CHR ''+'' \<and> c \<noteq> CHR ''_''"
  by (auto simp: is_digit_iff py_isspace_def)

lemma digit_val_inj: "is_digit a \<Longrightarrow> is_digit b \<Longrightarrow> digit_val a = digit_val b \<Longrightarrow> a = b"
  by (auto simp: is_digit_iff digit_val_def)

lemma is_digit_literals [simp]:
  "is_digit CHR ''0''" "is_digit CHR ''1''" "is_digit CHR ''2''" "is_digit CHR ''3''" "is_digit CHR ''4''"
  "is_digit CHR ''5''" "is_digit CHR ''6''" "is_digit CHR ''7''" "is_digit CHR ''8''" "is_digit CHR ''9''"
  by (simp_all add: is_digit_def)

lemma digit_val_literals [simp]:
  "digit_val CHR ''0'' = 0" "digit_val CHR ''1'' = 1" "digit_val CHR ''2'' = 2" "digit_val CHR ''3'' = 3"
  "digit_val CHR ''4'' = 4" "digit_val CHR ''5'' = 5" "digit_val CHR ''6'' = 6" "digit_val CHR ''7'' = 7"
  "digit_val CHR ''8'' = 8" "digit_val CHR ''9'' = 9"
  by (simp_all add: digit_val_def)

lemma py_int_2digits:
  "is_digit a \<Longrightarrow> is_digit b \<Longrightarrow> py_int [a, b] = Inr (int (10 * digit_val a + digit_val b))"
  using digit_not_special[of a] digit_not_special[of b]
  by (simp add: py_int_def py_strip_def)

lemma str_nat_values:
  "str_nat 0 = ''0''" "str_nat 15 = ''15''" "str_nat 30 = ''30''" "str_nat 45 = ''45''"
  by (simp_all add: str_nat.simps[of 0] str_nat.simps[of "Suc 0"] str_nat.simps[of 3] str_nat.simps[of 4]
        str_nat.simps[of 15] str_nat.simps[of 30] str_nat.simps[of 45] digit_char_def)

lemma format_02d_floor15:
  assumes "n \<le> 59"
  shows "format_02d (int n div 15 * 15) =
    (if n < 15 then ''00'' else if n < 30 then ''15'' else if n < 45 then ''30'' else ''45'')"
proof -
  have "int n div 15 = 0 \<or> int n div 15 = 1 \<or> int n div 15 = 2 \<or> int n div 15 = 3"
    using assms by linarith
  moreover have "int n div 15 = 0 \<longleftrightarrow> n < 15" "int n div 15 = 1 \<longleftrightarrow> 15 \<le> n \<and> n < 30"
    "int n div 15 = 2 \<longleftrightarrow> 30 \<le> n \<and> n < 45" by linarith+
  ultimately show ?thesis
    by (auto simp: format_02d_def str_nat_values)
qed

subsection \<open>Valid timestamps, character by character\<close>

lemma length_26E:
  assumes "length (x::'a list) = 26"
  obtains c0 c1 c2 c3 c4 c5 c6 c7 c8 c9 c10 c11 c12 c13 c14 c15 c16 c17 c18 c19 c20 c21 c22 c23 c24 c25
  where "x = [c0,c1,c2,c3,c4,c5,c6,c7,c8,c9,c10,c11,c12,c13,c14,c15,c16,c17,c18,c19,c20,c21,c22,c23,c24,c25]"
  using assms by (auto simp: eval_nat_numeral length_Suc_conv)

lemma fields_mk_ts:
  "year_of (mk_ts y1 y2 y3 y4 m1 m2 d1 d2 h1 h2 n1 n2 s1 s2 k1 k2 k3 sg o1 o2) =
     1000 * digit_val y1 + 100 * digit_val y2 + 10 * digit_val y3 + digit_val y4"
  "month_of (mk_ts y1 y2 y3 y4 m1 m2 d1 d2 h1 h2 n1 n2 s1 s2 k1 k2 k3 sg o1 o2) = 10 * digit_val m1 + digit_val m2"
  "day_of (mk_ts y1 y2 y3 y4 m1 m2 d1 d2 h1 h2 n1 n2 s1 s2 k1 k2 k3 sg o1 o2) = 10 * digit_val d1 + digit_val d2"
  "hour_of (mk_ts y1 y2 y3 y4 m1 m2 d1 d2 h1 h2 n1 n2 s1 s2 k1 k2 k3 sg o1 o2) = 10 * digit_val h1 + digit_val h2"
  "minute_of (mk_ts y1 y2 y3 y4 m1 m2 d1 d2 h1 h2 n1 n2 s1 s2 k1 k2 k3 sg o1 o2) = 10 * digit_val n1 + digit_val n2"
  "second_of (mk_ts y1 y2 y3 y4 m1 m2 d1 d2 h1 h2 n1 n2 s1 s2 k1 k2 k3 sg o1 o2) = 10 * digit_val s1 + digit_val s2"
  "milli_of (mk_ts y1 y2 y3 y4 m1 m2 d1 d2 h1 h2 n1 n2 s1 s2 k1 k2 k3 sg o1 o2) =
     100 * digit_val k1 + 10 * digit_val k2 + digit_val k3"
  "date_part (mk_ts y1 y2 y3 y4 m1 m2 d1 d2 h1 h2 n1 n2 s1 s2 k1 k2 k3 sg o1 o2) =
     [y1, y2, y3, y4, CHR ''-'', m1, m2, CHR ''-'', d1, d2]"
  "hour_part (mk_ts y1 y2 y3 y4 m1 m2 d1 d2 h1 h2 n1 n2 s1 s2 k1 k2 k3 sg o1 o2) = [h1, h2]"
  "offset_part (mk_ts y1 y2 y3 y4 m1 m2 d1 d2 h1 h2 n1 n2 s1 s2 k1 k2 k3 sg o1 o2) = [sg, o1, o2]"
  by (simp_all add: mk_ts_def year_of_def month_of_def day_of_def hour_of_def minute_of_def
      second_of_def milli_of_def date_part_def hour_part_def offset_part_def slice_def dec_def)

lemma valid_mk_ts:
  "valid_timestamp (mk_ts y1 y2 y3 y4 m1 m2 d1 d2 h1 h2 n1 n2 s1 s2 k1 k2 k3 sg o1 o2) \<longleftrightarrow>
    (is_digit y1 \<and> is_digit y2 \<and> is_digit y3 \<and> is_digit y4 \<and> is_digit m1 \<and> is_digit m2 \<and>
     is_digit d1 \<and> is_digit d2 \<and> is_digit h1 \<and> is_digit h2 \<and> is_digit n1 \<and> is_digit n2 \<and>
     is_digit s1 \<and> is_digit s2 \<and> is_digit k1 \<and> is_digit k2 \<and> is_digit k3 \<and>
     (sg = CHR ''+'' \<or> sg = CHR ''-'') \<and> is_digit o1 \<and> is_digit o2 \<and>
     1 \<le> 1000 * digit_val y1 + 100 * digit_val y2 + 10 * digit_val y3 + digit_val y4 \<and>
     1 \<le> 10 * digit_val m1 + digit_val m2 \<and> 10 * digit_val m1 + digit_val m2 \<le> 12 \<and>
     1 \<le> 10 * digit_val d1 + digit_val d2 \<and>
     10 * digit_val d1 + digit_val d2
       \<le> days_in_month (1000 * digit_val y1 + 100 * digit_val y2 + 10 * digit_val y3 + digit_val y4)
            (10 * digit_val m1 + digit_val m2) \<and>
     10 * digit_val h1 + digit_val h2 \<le> 23 \<and> 10 * digit_val n1 + digit_val n2 \<le> 59 \<and>
     10 * digit_val s1 + digit_val s2 \<le> 59)"
  unfolding valid_timestamp_def fields_mk_ts
  by (simp add: mk_ts_def slice_def all_digits_def conj_ac)

lemma valid_timestampE:
  assumes "valid_timestamp x"
  obtains y1 y2 y3 y4 m1 m2 d1 d2 h1 h2 n1 n2 s1 s2 k1 k2 k3 sg o1 o2
  where "x = mk_ts y1 y2 y3 y4 m1 m2 d1 d2 h1 h2 n1 n2 s1 s2 k1 k2 k3 sg o1 o2"
proof -
  from assms have "length x = 26" by (simp add: valid_timestamp_def)
  then obtain c0 c1 c2 c3 c4 c5 c6 c7 c8 c9 c10 c11 c12 c13 c14 c15 c16 c17 c18 c19 c20 c21 c22 c23 c24 c25
    where x: "x = [c0,c1,c2,c3,c4,c5,c6,c7,c8,c9,c10,c11,c12,c13,c14,c15,c16,c17,c18,c19,c20,c21,c22,c23,c24,c25]"
    by (rule length_26E)
  from assms have "x = mk_ts c0 c1 c2 c3 c5 c6 c8 c9 c11 c12 c14 c15 c17 c18 c20 c21 c22 c23 c24 c25"
    unfolding x valid_timestamp_def mk_ts_def by (simp add: slice_def)
  then show thesis by (rule that)
qed

subsection \<open>The five lambdas on a timestamp\<close>

lemma agg_minute_mk_ts:
  "agg_minute (mk_ts y1 y2 y3 y4 m1 m2 d1 d2 h1 h2 n1 n2 s1 s2 k1 k2 k3 sg o1 o2) =
     Inr (mk_ts y1 y2 y3 y4 m1 m2 d1 d2 h1 h2 n1 n2 CHR ''0'' CHR ''0'' CHR ''0'' CHR ''0'' CHR ''0'' sg o1 o2)"
  by (simp add: agg_minute_def mk_ts_def py_last3_def)

lemma agg_10minutes_mk_ts:
  "agg_10minutes (mk_ts y1 y2 y3 y4 m1 m2 d1 d2 h1 h2 n1 n2 s1 s2 k1 k2 k3 sg o1 o2) =
     Inr (mk_ts y1 y2 y3 y4 m1 m2 d1 d2 h1 h2 n1 CHR ''0'' CHR ''0'' CHR ''0'' CHR ''0'' CHR ''0'' CHR ''0'' sg o1 o2)"
  by (simp add: agg_10minutes_def mk_ts_def py_last3_def)

lemma agg_1hour_mk_ts:
  "agg_1hour (mk_ts y1 y2 y3 y4 m1 m2 d1 d2 h1 h2 n1 n2 s1 s2 k1 k2 k3 sg o1 o2) =
     Inr (mk_ts y1 y2 y3 y4 m1 m2 d1 d2 h1 h2 CHR ''0'' CHR ''0'' CHR ''0'' CHR ''0'' CHR ''0'' CHR ''0'' CHR ''0'' sg o1 o2)"
  by (simp add: agg_1hour_def mk_ts_def py_last3_def)

lemma agg_1day_mk_ts:
  "agg_1day (mk_ts y1 y2 y3 y4 m1 m2 d1 d2 h1 h2 n1 n2 s1 s2 k1 k2 k3 sg o1 o2) =
     Inr (mk_ts y1 y2 y3 y4 m1 m2 d1 d2 CHR ''0'' CHR ''0'' CHR ''0'' CHR ''0'' CHR ''0'' CHR ''0'' CHR ''0'' CHR ''0'' CHR ''0'' sg o1 o2)"
  by (simp add: agg_1day_def mk_ts_def py_last3_def)

lemma agg_15minutes_mk_ts:
  assumes "is_digit n1" "is_digit n2" "10 * digit_val n1 + digit_val n2 \<le> 59"
  shows "\<exists>q1 q2. agg_15minutes (mk_ts y1 y2 y3 y4 m1 m2 d1 d2 h1 h2 n1 n2 s1 s2 k1 k2 k3 sg o1 o2) =
     Inr (mk_ts y1 y2 y3 y4 m1 m2 d1 d2 h1 h2 q1 q2 CHR ''0'' CHR ''0'' CHR ''0'' CHR ''0'' CHR ''0'' sg o1 o2)
     \<and> is_digit q1 \<and> is_digit q2
     \<and> 10 * digit_val q1 + digit_val q2 = (10 * digit_val n1 + digit_val n2) div 15 * 15
     \<and> [q1, q2] \<in> set [''00'', ''15'', ''30'', ''45'']"
proof -
  let ?n = "10 * digit_val n1 + digit_val n2"
  have "agg_15minutes (mk_ts y1 y2 y3 y4 m1 m2 d1 d2 h1 h2 n1 n2 s1 s2 k1 k2 k3 sg o1 o2) =
      Inr ([y1, y2, y3, y4, CHR ''-'', m1, m2, CHR ''-'', d1, d2, CHR ''T'', h1, h2, CHR '':'']
           @ format_02d (int ?n div 15 * 15) @ '':00.000'' @ [sg, o1, o2])"
    using assms(1,2) by (simp add: agg_15minutes_def mk_ts_def py_last3_def py_int_2digits)
  moreover have "?n div 15 = 0 \<or> ?n div 15 = 1 \<or> ?n div 15 = 2 \<or> ?n div 15 = 3"
    using assms(3) by linarith
  moreover have "?n div 15 = 0 \<longleftrightarrow> ?n < 15" "?n div 15 = 1 \<longleftrightarrow> 15 \<le> ?n \<and> ?n < 30"
    "?n div 15 = 2 \<longleftrightarrow> 30 \<le> ?n \<and> ?n < 45" by linarith+
  ultimately show ?thesis
    using format_02d_floor15[OF assms(3)]
    apply (simp only: )
    apply (elim disjE)
    apply (rule exI[of _ "CHR ''0''"], rule exI[of _ "CHR ''0''"], simp add: mk_ts_def)
    apply (rule exI[of _ "CHR ''1''"], rule exI[of _ "CHR ''5''"], simp add: mk_ts_def)
    apply (rule exI[of _ "CHR ''3''"], rule exI[of _ "CHR ''0''"], simp add: mk_ts_def)
    apply (rule exI[of _ "CHR ''4''"], rule exI[of _ "CHR ''5''"], simp add: mk_ts_def)
    done
qed

subsection \<open>Series operations\<close>

lemma series_apply_imp_list_all2:
  "series_apply f xs = Inr ys \<Longrightarrow> list_all2 (\<lambda>x y. f x = Inr y) xs ys"
  by (induction xs arbitrary: ys) (auto split: sum.splits)

lemma list_all2_imp_series_apply:
  "list_all2 (\<lambda>x y. f x = Inr y) xs ys \<Longrightarrow> series_apply f xs = Inr ys"
  by (induction xs ys rule: list_all2_induct) auto

lemma series_apply_list_all2:
  "series_apply f xs = Inr ys \<longleftrightarrow> list_all2 (\<lambda>x y. f x = Inr y) xs ys"
  using series_apply_imp_list_all2 list_all2_imp_series_apply by blast

lemma series_apply_elementwise:
  "series_apply f ts = Inr ws \<longleftrightarrow> list_all2 (\<lambda>t w. series_apply f [t] = Inr [w]) ts ws"
proof -
  have "(\<lambda>t w. series_apply f [t] = Inr [w]) = (\<lambda>t w. f t = Inr w)"
    by (auto simp: fun_eq_iff split: sum.splits)
  then show ?thesis
    by (simp only: series_apply_list_all2)
qed

lemma series_apply_single:
  "series_apply f [x] = (case f x of Inl e \<Rightarrow> Inl e | Inr y \<Rightarrow> Inr [y])"
  by (simp split: sum.splits)

lemma list_all2_choose:
  "(\<forall>x\<in>set xs. \<exists>y. P x y) \<Longrightarrow> \<exists>ys. list_all2 P xs ys"
proof (induction xs)
  case Nil
  show ?case by simp
next
  case (Cons x xs)
  then obtain y ys where "P x y" "list_all2 P xs ys" by auto
  then have "list_all2 P (x # xs) (y # ys)" by simp
  then show ?case by blast
qed

lemma list_all2_fixpoints:
  "list_all2 (\<lambda>x y. P x y \<and> Q y) xs ys \<Longrightarrow> list_all2 P xs ys \<and> (\<forall>y\<in>set ys. Q y)"
  by (induction xs ys rule: list_all2_induct) auto

lemma calc_elementwise:
  assumes "g \<in> set supported_aggregations"
  shows "calc_aggregation_datetime ts g = Inr ws
     \<longleftrightarrow> list_all2 (\<lambda>t w. calc_aggregation_datetime [t] g = Inr [w]) ts ws"
proof -
  define k where "k = (\<lambda>t. let y = take 11 t @ ''00:00:00.000'' @ py_last3 t
     in if y = butlast DATE_CHANGE_WINTER @ ''1'' then DATE_CHANGE_WINTER else y)"
  have day: "calc_aggregation_datetime xs ''1day'' = Inr (map k xs)" for xs
  proof -
    have "series_apply agg_1day xs = Inr (map (\<lambda>t. take 11 t @ ''00:00:00.000'' @ py_last3 t) xs)"
      by (rule list_all2_imp_series_apply) (simp add: list_all2_conv_all_nth agg_1day_def)
    then show ?thesis
      by (simp add: calc_aggregation_datetime_def series_replace_def k_def Let_def comp_def)
  qed
  have day_iff: "calc_aggregation_datetime ts ''1day'' = Inr ws
     \<longleftrightarrow> list_all2 (\<lambda>t w. calc_aggregation_datetime [t] ''1day'' = Inr [w]) ts ws"
    unfolding day by (auto simp: list_all2_conv_all_nth intro: nth_equalityI)
  have c: "calc_aggregation_datetime xs ''minute'' = series_apply agg_minute xs"
    "calc_aggregation_datetime xs ''10minutes'' = series_apply agg_10minutes xs"
    "calc_aggregation_datetime xs ''15minutes'' = series_apply agg_15minutes xs"
    "calc_aggregation_datetime xs ''1hour'' = series_apply agg_1hour xs" for xs
    by (simp_all add: calc_aggregation_datetime_def)
  from assms consider "g = ''minute''" | "g = ''10minutes''" | "g = ''15minutes''" | "g = ''1hour''" | "g = ''1day''"
    by (auto simp: supported_aggregations_def)
  then show ?thesis
  proof cases
    case 1
    show ?thesis unfolding 1 c by (rule series_apply_elementwise)
  next
    case 2
    show ?thesis unfolding 2 c by (rule series_apply_elementwise)
  next
    case 3
    show ?thesis unfolding 3 c by (rule series_apply_elementwise)
  next
    case 4
    show ?thesis unfolding 4 c by (rule series_apply_elementwise)
  next
    case 5
    show ?thesis unfolding 5 by (rule day_iff)
  qed
qed

subsection \<open>One timestamp through calc_aggregation_datetime\<close>

lemma calc_minute_mk_ts:
  "calc_aggregation_datetime [mk_ts y1 y2 y3 y4 m1 m2 d1 d2 h1 h2 n1 n2 s1 s2 k1 k2 k3 sg o1 o2] ''minute'' =
     Inr [mk_ts y1 y2 y3 y4 m1 m2 d1 d2 h1 h2 n1 n2 CHR ''0'' CHR ''0'' CHR ''0'' CHR ''0'' CHR ''0'' sg o1 o2]"
  by (simp add: calc_aggregation_datetime_def agg_minute_mk_ts)

lemma calc_10minutes_mk_ts:
  "calc_aggregation_datetime [mk_ts y1 y2 y3 y4 m1 m2 d1 d2 h1 h2 n1 n2 s1 s2 k1 k2 k3 sg o1 o2] ''10minutes'' =
     Inr [mk_ts y1 y2 y3 y4 m1 m2 d1 d2 h1 h2 n1 CHR ''0'' CHR ''0'' CHR ''0'' CHR ''0'' CHR ''0'' CHR ''0'' sg o1 o2]"
  by (simp add: calc_aggregation_datetime_def agg_10minutes_mk_ts)

lemma calc_1hour_mk_ts:
  "calc_aggregation_datetime [mk_ts y1 y2 y3 y4 m1 m2 d1 d2 h1 h2 n1 n2 s1 s2 k1 k2 k3 sg o1 o2] ''1hour'' =
     Inr [mk_ts y1 y2 y3 y4 m1 m2 d1 d2 h1 h2 CHR ''0'' CHR ''0'' CHR ''0'' CHR ''0'' CHR ''0'' CHR ''0'' CHR ''0'' sg o1 o2]"
  by (simp add: calc_aggregation_datetime_def agg_1hour_mk_ts)

lemma calc_15minutes_mk_ts:
  assumes "is_digit n1" "is_digit n2" "10 * digit_val n1 + digit_val n2 \<le> 59"
  shows "\<exists>q1 q2.
     calc_aggregation_datetime [mk_ts y1 y2 y3 y4 m1 m2 d1 d2 h1 h2 n1 n2 s1 s2 k1 k2 k3 sg o1 o2] ''15minutes'' =
       Inr [mk_ts y1 y2 y3 y4 m1 m2 d1 d2 h1 h2 q1 q2 CHR ''0'' CHR ''0'' CHR ''0'' CHR ''0'' CHR ''0'' sg o1 o2]
     \<and> is_digit q1 \<and> is_digit q2
     \<and> 10 * digit_val q1 + digit_val q2 = (10 * digit_val n1 + digit_val n2) div 15 * 15
     \<and> [q1, q2] \<in> set [''00'', ''15'', ''30'', ''45'']"
proof -
  from agg_15minutes_mk_ts[OF assms, of y1 y2 y3 y4 m1 m2 d1 d2 h1 h2 s1 s2 k1 k2 k3 sg o1 o2]
  obtain q1 q2 where q: "agg_15minutes (mk_ts y1 y2 y3 y4 m1 m2 d1 d2 h1 h2 n1 n2 s1 s2 k1 k2 k3 sg o1 o2) =
     Inr (mk_ts y1 y2 y3 y4 m1 m2 d1 d2 h1 h2 q1 q2 CHR ''0'' CHR ''0'' CHR ''0'' CHR ''0'' CHR ''0'' sg o1 o2)"
     "is_digit q1" "is_digit q2"
     "10 * digit_val q1 + digit_val q2 = (10 * digit_val n1 + digit_val n2) div 15 * 15"
     "[q1, q2] \<in> set [''00'', ''15'', ''30'', ''45'']"
    by blast
  have "calc_aggregation_datetime [mk_ts y1 y2 y3 y4 m1 m2 d1 d2 h1 h2 n1 n2 s1 s2 k1 k2 k3 sg o1 o2] ''15minutes'' =
       Inr [mk_ts y1 y2 y3 y4 m1 m2 d1 d2 h1 h2 q1 q2 CHR ''0'' CHR ''0'' CHR ''0'' CHR ''0'' CHR ''0'' sg o1 o2]"
    by (simp add: calc_aggregation_datetime_def q(1))
  with q(2-5) show ?thesis by blast
qed

lemma calc_15minutes_fixpoint:
  assumes "[q1, q2] \<in> set [''00'', ''15'', ''30'', ''45'']"
  shows "calc_aggregation_datetime
      [mk_ts y1 y2 y3 y4 m1 m2 d1 d2 h1 h2 q1 q2 CHR ''0'' CHR ''0'' CHR ''0'' CHR ''0'' CHR ''0'' sg o1 o2] ''15minutes'' =
    Inr [mk_ts y1 y2 y3 y4 m1 m2 d1 d2 h1 h2 q1 q2 CHR ''0'' CHR ''0'' CHR ''0'' CHR ''0'' CHR ''0'' sg o1 o2]"
proof -
  have "agg_15minutes (mk_ts y1 y2 y3 y4 m1 m2 d1 d2 h1 h2 q1 q2 CHR ''0'' CHR ''0'' CHR ''0'' CHR ''0'' CHR ''0'' sg o1 o2)
     = Inr (mk_ts y1 y2 y3 y4 m1 m2 d1 d2 h1 h2 q1 q2 CHR ''0'' CHR ''0'' CHR ''0'' CHR ''0'' CHR ''0'' sg o1 o2)"
    using assms
    by (auto simp: agg_15minutes_def mk_ts_def py_int_2digits format_02d_def str_nat_values py_last3_def)
  then show ?thesis
    by (simp add: calc_aggregation_datetime_def)
qed

lemma DATE_CHANGE_WINTER_mk_ts:
  "DATE_CHANGE_WINTER = mk_ts CHR ''2'' CHR ''0'' CHR ''1'' CHR ''7'' CHR ''1'' CHR ''0'' CHR ''2'' CHR ''9''
     CHR ''0'' CHR ''0'' CHR ''0'' CHR ''0'' CHR ''0'' CHR ''0'' CHR ''0'' CHR ''0'' CHR ''0'' CHR ''+'' CHR ''0'' CHR ''2''"
  by (simp add: DATE_CHANGE_WINTER_def mk_ts_def)

lemma calc_1day_mk_ts:
  "calc_aggregation_datetime [mk_ts y1 y2 y3 y4 m1 m2 d1 d2 h1 h2 n1 n2 s1 s2 k1 k2 k3 sg o1 o2] ''1day'' =
     Inr [if [y1, y2, y3, y4, CHR ''-'', m1, m2, CHR ''-'', d1, d2] = ''2017-10-29'' \<and> [sg, o1, o2] = ''+01''
          then DATE_CHANGE_WINTER
          else mk_ts y1 y2 y3 y4 m1 m2 d1 d2 CHR ''0'' CHR ''0'' CHR ''0'' CHR ''0'' CHR ''0'' CHR ''0''
                 CHR ''0'' CHR ''0'' CHR ''0'' sg o1 o2]"
  by (simp add: calc_aggregation_datetime_def agg_1day_mk_ts series_replace_def)
     (auto simp: mk_ts_def DATE_CHANGE_WINTER_def)

lemma valid_DATE_CHANGE_WINTER: "valid_timestamp DATE_CHANGE_WINTER"
  unfolding DATE_CHANGE_WINTER_mk_ts valid_mk_ts
  by (simp add: days_in_month_def)

text \<open>
  What every supported aggregation level does to a valid timestamp: the result is a
  valid timestamp with the same date, with zero seconds and milliseconds, with the
  same offset (but for the one replaced value), and it is its own window.
\<close>

lemma window_of_valid:
  assumes "valid_timestamp t" "g \<in> set supported_aggregations"
  shows "\<exists>w. calc_aggregation_datetime [t] g = Inr [w] \<and> valid_timestamp w
     \<and> second_of w = 0 \<and> milli_of w = 0 \<and> date_part w = date_part t
     \<and> offset_part w = (if g = ''1day'' \<and> date_part t = ''2017-10-29'' \<and> offset_part t = ''+01''
                          then ''+02'' else offset_part t)
     \<and> calc_aggregation_datetime [w] g = Inr [w]"
proof -
  from assms(1) obtain y1 y2 y3 y4 m1 m2 d1 d2 h1 h2 n1 n2 s1 s2 k1 k2 k3 sg o1 o2
    where t: "t = mk_ts y1 y2 y3 y4 m1 m2 d1 d2 h1 h2 n1 n2 s1 s2 k1 k2 k3 sg o1 o2"
    by (rule valid_timestampE)
  note v = assms(1)[unfolded t valid_mk_ts]
  from assms(2) consider "g = ''minute''" | "g = ''10minutes''" | "g = ''15minutes''" | "g = ''1hour''" | "g = ''1day''"
    by (auto simp: supported_aggregations_def)
  then show ?thesis
  proof cases
    case 1
    show ?thesis using v unfolding t 1
      by (simp add: calc_minute_mk_ts valid_mk_ts fields_mk_ts)
  next
    case 2
    have "10 * digit_val n1 \<le> 59" using v by simp
    then show ?thesis using v unfolding t 2
      by (simp add: calc_10minutes_mk_ts valid_mk_ts fields_mk_ts)
  next
    case 3
    from v have n: "is_digit n1" "is_digit n2" "10 * digit_val n1 + digit_val n2 \<le> 59" by simp_all
    from calc_15minutes_mk_ts[OF n, of y1 y2 y3 y4 m1 m2 d1 d2 h1 h2 s1 s2 k1 k2 k3 sg o1 o2]
    obtain q1 q2 where q: "calc_aggregation_datetime [t] ''15minutes'' =
       Inr [mk_ts y1 y2 y3 y4 m1 m2 d1 d2 h1 h2 q1 q2 CHR ''0'' CHR ''0'' CHR ''0'' CHR ''0'' CHR ''0'' sg o1 o2]"
       "is_digit q1" "is_digit q2"
       "10 * digit_val q1 + digit_val q2 = (10 * digit_val n1 + digit_val n2) div 15 * 15"
       "[q1, q2] \<in> set [''00'', ''15'', ''30'', ''45'']"
      unfolding t by blast
    have q59: "10 * digit_val q1 + digit_val q2 \<le> 59" using q(4) n(3) by linarith
    note fixp = calc_15minutes_fixpoint[OF q(5), of y1 y2 y3 y4 m1 m2 d1 d2 h1 h2 sg o1 o2]
    show ?thesis unfolding 3 q(1)
      using v q(2,3) q59 fixp by (simp add: valid_mk_ts fields_mk_ts t)
  next
    case 4
    show ?thesis using v unfolding t 4
      by (simp add: calc_1hour_mk_ts valid_mk_ts fields_mk_ts)
  next
    case 5
    show ?thesis
    proof (cases "[y1, y2, y3, y4, CHR ''-'', m1, m2, CHR ''-'', d1, d2] = ''2017-10-29'' \<and> [sg, o1, o2] = ''+01''")
      case True
      have "calc_aggregation_datetime [DATE_CHANGE_WINTER] ''1day'' = Inr [DATE_CHANGE_WINTER]"
        unfolding DATE_CHANGE_WINTER_mk_ts calc_1day_mk_ts by simp
      moreover have "calc_aggregation_datetime [t] ''1day'' = Inr [DATE_CHANGE_WINTER]"
        unfolding t calc_1day_mk_ts using True by simp
      moreover have "second_of DATE_CHANGE_WINTER = 0" "milli_of DATE_CHANGE_WINTER = 0"
        "date_part DATE_CHANGE_WINTER = ''2017-10-29''" "offset_part DATE_CHANGE_WINTER = ''+02''"
        unfolding DATE_CHANGE_WINTER_mk_ts fields_mk_ts by simp_all
      ultimately show ?thesis
        using True valid_DATE_CHANGE_WINTER unfolding 5 by (simp add: t fields_mk_ts)
    next
      case False
      define w0 where "w0 = mk_ts y1 y2 y3 y4 m1 m2 d1 d2 CHR ''0'' CHR ''0'' CHR ''0'' CHR ''0'' CHR ''0'' CHR ''0''
                 CHR ''0'' CHR ''0'' CHR ''0'' sg o1 o2"
      have r: "calc_aggregation_datetime [t] ''1day'' = Inr [w0]"
        unfolding t calc_1day_mk_ts w0_def using False by (simp only: if_False)
      have fixp: "calc_aggregation_datetime [w0] ''1day'' = Inr [w0]"
        unfolding w0_def calc_1day_mk_ts using False by (simp only: if_False)
      have nc: "\<not> (''1day'' = ''1day'' \<and> date_part t = ''2017-10-29'' \<and> offset_part t = ''+01'')"
        using False by (simp only: t fields_mk_ts) blast
      have w0: "valid_timestamp w0" "second_of w0 = 0" "milli_of w0 = 0" "date_part w0 = date_part t"
        "offset_part w0 = offset_part t"
        using v unfolding w0_def t by (simp_all add: valid_mk_ts fields_mk_ts)
      have off: "offset_part w0 = (if ''1day'' = ''1day'' \<and> date_part t = ''2017-10-29'' \<and> offset_part t = ''+01''
                          then ''+02'' else offset_part t)"
        using nc w0(5) by (simp only: if_False)
      show ?thesis
        unfolding 5
        by (rule exI[of _ w0]) (intro conjI r fixp w0(1) w0(2) w0(3) w0(4) off)
    qed
  qed
qed

section \<open>Claims about the window assigner\<close>

text \<open>
  C7. An aggregation level outside the five supported ones makes
  \<open>calc_aggregation_datetime\<close> raise, whatever the series of timestamps is, and no
  window identifier is produced. The code raises NotImplementedError; the
  specification calls this failure a ConfigurationError.
\<close>

theorem C7_unsupported_aggregation_raises:
  "aggregation \<notin> set supported_aggregations \<Longrightarrow>
     calc_aggregation_datetime datetimes aggregation = Inl NotImplementedError"
  by (simp add: calc_aggregation_datetime_def supported_aggregations_def)

theorem C7_unsupported_aggregation_raises_witness:
  "''week'' \<notin> set supported_aggregations \<and>
   calc_aggregation_datetime [''2017-10-01T00:07:23.500+02'', ''not a timestamp''] ''week''
     = Inl NotImplementedError"
proof -
  have h: "''week'' \<notin> set supported_aggregations"
    by (simp add: supported_aggregations_def)
  from C7_unsupported_aggregation_raises[OF h] h show ?thesis by simp
qed

text \<open>
  C4. At aggregation level 1day, every valid timestamp whose date is 2017-10-29 and
  whose offset suffix is +02 or +01 is mapped to the one window identifier
  2017-10-29T00:00:00.000+02. Stated for a whole series: every element of the result is
  that identifier.
\<close>

theorem C4_dst_day_one_window:
  assumes "\<forall>t \<in> set datetimes. valid_timestamp t \<and> date_part t = ''2017-10-29''
             \<and> (offset_part t = ''+02'' \<or> offset_part t = ''+01'')"
  shows "calc_aggregation_datetime datetimes ''1day''
           = Inr (replicate (length datetimes) ''2017-10-29T00:00:00.000+02'')"
proof -
  have one: "calc_aggregation_datetime [t] ''1day'' = Inr [''2017-10-29T00:00:00.000+02'']"
    if t: "valid_timestamp t" "date_part t = ''2017-10-29''"
       "offset_part t = ''+02'' \<or> offset_part t = ''+01''" for t
  proof -
    from t(1) obtain y1 y2 y3 y4 m1 m2 d1 d2 h1 h2 n1 n2 s1 s2 k1 k2 k3 sg o1 o2
      where e: "t = mk_ts y1 y2 y3 y4 m1 m2 d1 d2 h1 h2 n1 n2 s1 s2 k1 k2 k3 sg o1 o2"
      by (rule valid_timestampE)
    from t(2,3) show ?thesis
      unfolding e calc_1day_mk_ts fields_mk_ts
      by (auto simp: mk_ts_def DATE_CHANGE_WINTER_def)
  qed
  have "1day" : "''1day'' \<in> set supported_aggregations"
    by (simp add: supported_aggregations_def)
  have "list_all2 (\<lambda>t w. calc_aggregation_datetime [t] ''1day'' = Inr [w]) datetimes
          (replicate (length datetimes) ''2017-10-29T00:00:00.000+02'')"
    using assms one by (simp add: list_all2_conv_all_nth)
  then show ?thesis
    by (rule iffD2[OF calc_elementwise[OF "1day"]])
qed

theorem C4_dst_day_one_window_witness:
  "valid_timestamp ''2017-10-29T01:30:00.000+02'' \<and> valid_timestamp ''2017-10-29T02:30:00.000+01''
   \<and> calc_aggregation_datetime [''2017-10-29T01:30:00.000+02'', ''2017-10-29T02:30:00.000+01''] ''1day''
       = Inr [''2017-10-29T00:00:00.000+02'', ''2017-10-29T00:00:00.000+02'']"
proof -
  have h: "\<forall>t \<in> set [''2017-10-29T01:30:00.000+02'', ''2017-10-29T02:30:00.000+01''].
       valid_timestamp t \<and> date_part t = ''2017-10-29''
       \<and> (offset_part t = ''+02'' \<or> offset_part t = ''+01'')"
    by (simp add: valid_timestamp_def slice_def all_digits_def year_of_def month_of_def day_of_def
        hour_of_def minute_of_def second_of_def dec_def days_in_month_def date_part_def offset_part_def)
  from C4_dst_day_one_window[OF h] h show ?thesis by (simp add: numeral_2_eq_2)
qed

lemma valid_timestamp_examples:
  "valid_timestamp ''2017-10-01T00:07:23.500+02''"
  "valid_timestamp ''2017-10-29T02:30:15.250+01''"
  "valid_timestamp ''2017-12-24T18:59:59.999+01''"
  by (simp_all add: valid_timestamp_def slice_def all_digits_def year_of_def month_of_def day_of_def
        hour_of_def minute_of_def second_of_def dec_def days_in_month_def)

text \<open>
  C10. For a valid timestamp and a supported aggregation level, the window identifier
  is again a valid timestamp of the same fixed-width pattern, its seconds and
  milliseconds are zero, its date is the date of the input, and its offset suffix is the
  offset of the input, except that at level 1day the input date 2017-10-29 with offset
  +01 gets the offset +02.
\<close>

theorem C10_window_identifier_well_formed:
  assumes "valid_timestamp t" "g \<in> set supported_aggregations"
  shows "\<exists>w. calc_aggregation_datetime [t] g = Inr [w] \<and> valid_timestamp w
     \<and> second_of w = 0 \<and> milli_of w = 0 \<and> date_part w = date_part t
     \<and> offset_part w = (if g = ''1day'' \<and> date_part t = ''2017-10-29'' \<and> offset_part t = ''+01''
                          then ''+02'' else offset_part t)"
  using window_of_valid[OF assms] by blast

theorem C10_window_identifier_well_formed_witness:
  "valid_timestamp ''2017-10-29T02:30:15.250+01'' \<and> ''1day'' \<in> set supported_aggregations
   \<and> (\<exists>w. calc_aggregation_datetime [''2017-10-29T02:30:15.250+01''] ''1day'' = Inr [w]
        \<and> valid_timestamp w \<and> second_of w = 0 \<and> milli_of w = 0
        \<and> date_part w = ''2017-10-29'' \<and> offset_part w = ''+02'')"
proof -
  have h1: "valid_timestamp ''2017-10-29T02:30:15.250+01''"
    by (rule valid_timestamp_examples)
  have h2: "''1day'' \<in> set supported_aggregations"
    by (simp add: supported_aggregations_def)
  have d: "date_part ''2017-10-29T02:30:15.250+01'' = ''2017-10-29''"
    "offset_part ''2017-10-29T02:30:15.250+01'' = ''+01''"
    by (simp_all add: date_part_def offset_part_def slice_def)
  from C10_window_identifier_well_formed[OF h1 h2]
  obtain w where w: "calc_aggregation_datetime [''2017-10-29T02:30:15.250+01''] ''1day'' = Inr [w]"
    "valid_timestamp w" "second_of w = 0" "milli_of w = 0"
    "date_part w = date_part ''2017-10-29T02:30:15.250+01''"
    "offset_part w = (if ''1day'' = ''1day'' \<and> date_part ''2017-10-29T02:30:15.250+01'' = ''2017-10-29''
                          \<and> offset_part ''2017-10-29T02:30:15.250+01'' = ''+01''
                        then ''+02'' else offset_part ''2017-10-29T02:30:15.250+01'')"
    by blast
  have "date_part w = ''2017-10-29''" "offset_part w = ''+02''"
    using w(5,6) unfolding d by simp_all
  with w(1-4) h1 h2 show ?thesis by blast
qed

text \<open>
  C5. For a supported aggregation level and a series of valid timestamps, assigning
  windows succeeds, and assigning windows to the result gives the same result.
\<close>

theorem C5_assign_window_idempotent:
  assumes "\<forall>t \<in> set datetimes. valid_timestamp t" "g \<in> set supported_aggregations"
  shows "\<exists>ws. calc_aggregation_datetime datetimes g = Inr ws
           \<and> calc_aggregation_datetime ws g = Inr ws"
proof -
  have "\<forall>t \<in> set datetimes. \<exists>w. calc_aggregation_datetime [t] g = Inr [w]
          \<and> calc_aggregation_datetime [w] g = Inr [w]"
    using window_of_valid[OF _ assms(2)] assms(1) by blast
  then obtain ws where
    "list_all2 (\<lambda>t w. calc_aggregation_datetime [t] g = Inr [w]
                     \<and> calc_aggregation_datetime [w] g = Inr [w]) datetimes ws"
    using list_all2_choose[of datetimes "\<lambda>t w. calc_aggregation_datetime [t] g = Inr [w]
                     \<and> calc_aggregation_datetime [w] g = Inr [w]"] by blast
  then have a: "list_all2 (\<lambda>t w. calc_aggregation_datetime [t] g = Inr [w]) datetimes ws"
    and b: "\<forall>w \<in> set ws. calc_aggregation_datetime [w] g = Inr [w]"
    using list_all2_fixpoints[of "\<lambda>t w. calc_aggregation_datetime [t] g = Inr [w]"
        "\<lambda>w. calc_aggregation_datetime [w] g = Inr [w]" datetimes ws] by blast+
  from b have c: "list_all2 (\<lambda>t w. calc_aggregation_datetime [t] g = Inr [w]) ws ws"
    by (simp add: list_all2_same)
  have "calc_aggregation_datetime datetimes g = Inr ws"
    using a by (rule iffD2[OF calc_elementwise[OF assms(2)]])
  moreover have "calc_aggregation_datetime ws g = Inr ws"
    using c by (rule iffD2[OF calc_elementwise[OF assms(2)]])
  ultimately show ?thesis by blast
qed

theorem C5_assign_window_idempotent_witness:
  "valid_timestamp ''2017-10-01T00:07:23.500+02'' \<and> valid_timestamp ''2017-12-24T18:59:59.999+01''
   \<and> ''15minutes'' \<in> set supported_aggregations
   \<and> (\<exists>ws. calc_aggregation_datetime [''2017-10-01T00:07:23.500+02'', ''2017-12-24T18:59:59.999+01''] ''15minutes''
              = Inr ws
            \<and> calc_aggregation_datetime ws ''15minutes'' = Inr ws)"
proof -
  have h1: "\<forall>t \<in> set [''2017-10-01T00:07:23.500+02'', ''2017-12-24T18:59:59.999+01'']. valid_timestamp t"
    using valid_timestamp_examples by simp
  have h2: "''15minutes'' \<in> set supported_aggregations"
    by (simp add: supported_aggregations_def)
  from C5_assign_window_idempotent[OF h1 h2] valid_timestamp_examples(1,3) h2 show ?thesis by blast
qed

text \<open>
  C6. At level 15minutes a valid timestamp is mapped to the valid timestamp whose
  minute is the input's minute floored to a multiple of 15, whose seconds and
  milliseconds are zero, and whose date, hour and offset are those of the input.
  The two examples of the specification are instances.
\<close>

theorem C6_fifteen_minutes_floor:
  "(valid_timestamp t \<longrightarrow>
      (\<exists>w. calc_aggregation_datetime [t] ''15minutes'' = Inr [w] \<and> valid_timestamp w
         \<and> minute_of w = minute_of t div 15 * 15 \<and> second_of w = 0 \<and> milli_of w = 0
         \<and> date_part w = date_part t \<and> hour_part w = hour_part t \<and> offset_part w = offset_part t))
   \<and> calc_aggregation_datetime [''2017-10-01T00:07:23.500+02''] ''15minutes''
        = Inr [''2017-10-01T00:00:00.000+02'']
   \<and> calc_aggregation_datetime [''2017-10-01T00:17:00.000+02''] ''15minutes''
        = Inr [''2017-10-01T00:15:00.000+02'']"
proof (intro conjI impI)
  assume v: "valid_timestamp t"
  then obtain y1 y2 y3 y4 m1 m2 d1 d2 h1 h2 n1 n2 s1 s2 k1 k2 k3 sg o1 o2
    where t: "t = mk_ts y1 y2 y3 y4 m1 m2 d1 d2 h1 h2 n1 n2 s1 s2 k1 k2 k3 sg o1 o2"
    by (rule valid_timestampE)
  note vv = v[unfolded t valid_mk_ts]
  from vv have n: "is_digit n1" "is_digit n2" "10 * digit_val n1 + digit_val n2 \<le> 59" by simp_all
  from calc_15minutes_mk_ts[OF n, of y1 y2 y3 y4 m1 m2 d1 d2 h1 h2 s1 s2 k1 k2 k3 sg o1 o2]
  obtain q1 q2 where q: "calc_aggregation_datetime [t] ''15minutes'' =
       Inr [mk_ts y1 y2 y3 y4 m1 m2 d1 d2 h1 h2 q1 q2 CHR ''0'' CHR ''0'' CHR ''0'' CHR ''0'' CHR ''0'' sg o1 o2]"
       "is_digit q1" "is_digit q2"
       "10 * digit_val q1 + digit_val q2 = (10 * digit_val n1 + digit_val n2) div 15 * 15"
    unfolding t by blast
  have q59: "10 * digit_val q1 + digit_val q2 \<le> 59" using q(4) n(3) by linarith
  show "\<exists>w. calc_aggregation_datetime [t] ''15minutes'' = Inr [w] \<and> valid_timestamp w
         \<and> minute_of w = minute_of t div 15 * 15 \<and> second_of w = 0 \<and> milli_of w = 0
         \<and> date_part w = date_part t \<and> hour_part w = hour_part t \<and> offset_part w = offset_part t"
    unfolding q(1) using vv q(2,3,4) q59
    by (simp add: valid_mk_ts fields_mk_ts t)
next
  show "calc_aggregation_datetime [''2017-10-01T00:07:23.500+02''] ''15minutes''
        = Inr [''2017-10-01T00:00:00.000+02'']"
    by (simp add: calc_aggregation_datetime_def agg_15minutes_def py_int_2digits format_02d_def
        str_nat_values py_last3_def)
next
  show "calc_aggregation_datetime [''2017-10-01T00:17:00.000+02''] ''15minutes''
        = Inr [''2017-10-01T00:15:00.000+02'']"
    by (simp add: calc_aggregation_datetime_def agg_15minutes_def py_int_2digits format_02d_def
        str_nat_values py_last3_def)
qed

theorem C6_fifteen_minutes_floor_witness:
  "valid_timestamp ''2017-12-24T18:59:59.999+01''
   \<and> (\<exists>w. calc_aggregation_datetime [''2017-12-24T18:59:59.999+01''] ''15minutes'' = Inr [w]
         \<and> valid_timestamp w \<and> minute_of w = 45 \<and> second_of w = 0 \<and> milli_of w = 0
         \<and> date_part w = ''2017-12-24'' \<and> hour_part w = ''18'' \<and> offset_part w = ''+01'')"
proof -
  have h: "valid_timestamp ''2017-12-24T18:59:59.999+01''"
    by (rule valid_timestamp_examples)
  have d: "minute_of ''2017-12-24T18:59:59.999+01'' = 59"
    "date_part ''2017-12-24T18:59:59.999+01'' = ''2017-12-24''"
    "hour_part ''2017-12-24T18:59:59.999+01'' = ''18''"
    "offset_part ''2017-12-24T18:59:59.999+01'' = ''+01''"
    by (simp_all add: minute_of_def date_part_def hour_part_def offset_part_def slice_def dec_def)
  from C6_fifteen_minutes_floor[of "''2017-12-24T18:59:59.999+01''"] h
  obtain w where w: "calc_aggregation_datetime [''2017-12-24T18:59:59.999+01''] ''15minutes'' = Inr [w]"
    "valid_timestamp w" "minute_of w = minute_of ''2017-12-24T18:59:59.999+01'' div 15 * 15"
    "second_of w = 0" "milli_of w = 0"
    "date_part w = date_part ''2017-12-24T18:59:59.999+01''"
    "hour_part w = hour_part ''2017-12-24T18:59:59.999+01''"
    "offset_part w = offset_part ''2017-12-24T18:59:59.999+01''"
    by blast
  have "minute_of w = 45" "date_part w = ''2017-12-24''" "hour_part w = ''18''" "offset_part w = ''+01''"
    using w(3,6,7,8) unfolding d by simp_all
  with w(1,2,4,5) h show ?thesis by blast
qed

subsection \<open>Lexical order of digit strings\<close>

lemma lex_append_less:
  fixes a c :: "'a::linorder list"
  shows "length a = length c \<Longrightarrow> (a @ b < c @ d) = (a < c \<or> a = c \<and> b < d)"
  by (induction a c rule: list_induct2) auto

lemma lex_append_le:
  fixes a c :: "'a::linorder list"
  shows "length a = length c \<Longrightarrow> (a @ b \<le> c @ d) = (a < c \<or> a = c \<and> b \<le> d)"
  by (induction a c rule: list_induct2) auto

lemma digit_less_iff: "is_digit a \<Longrightarrow> is_digit c \<Longrightarrow> (a < c) = (digit_val a < digit_val c)"
  by (auto simp: is_digit_def digit_val_def less_char_def less_eq_char_def)

lemma digit_eq_iff: "is_digit a \<Longrightarrow> is_digit c \<Longrightarrow> (a = c) = (digit_val a = digit_val c)"
  using digit_val_inj by blast

lemma foldl_dec_acc:
  "foldl (\<lambda>a c. 10 * a + digit_val c) acc xs
     = acc * 10 ^ length xs + foldl (\<lambda>a c. 10 * a + digit_val c) 0 xs"
proof (induction xs arbitrary: acc)
  case Nil
  show ?case by simp
next
  case (Cons x xs)
  define f where "f = (\<lambda>a c. 10 * a + digit_val c)"
  have IH: "foldl f b xs = b * 10 ^ length xs + foldl f 0 xs" for b
    unfolding f_def by (rule Cons.IH)
  have "foldl f acc (x # xs) = foldl f (10 * acc + digit_val x) xs"
    by (simp add: f_def)
  also have "\<dots> = (10 * acc + digit_val x) * 10 ^ length xs + foldl f 0 xs"
    by (rule IH)
  finally have l: "foldl f acc (x # xs) = (10 * acc + digit_val x) * 10 ^ length xs + foldl f 0 xs" .
  have "foldl f 0 (x # xs) = foldl f (digit_val x) xs"
    by (simp add: f_def)
  also have "\<dots> = digit_val x * 10 ^ length xs + foldl f 0 xs"
    by (rule IH)
  finally have r: "foldl f 0 (x # xs) = digit_val x * 10 ^ length xs + foldl f 0 xs" .
  have "foldl f acc (x # xs) = acc * 10 ^ length (x # xs) + foldl f 0 (x # xs)"
    unfolding l r by (simp add: algebra_simps)
  then show ?case unfolding f_def .
qed

lemma dec_Cons: "dec (x # xs) = digit_val x * 10 ^ length xs + dec xs"
  by (simp add: dec_def foldl_dec_acc[of "digit_val x"])

lemma dec_bound: "all_digits xs \<Longrightarrow> dec xs < 10 ^ length xs"
proof (induction xs)
  case Nil
  show ?case by (simp add: dec_def)
next
  case (Cons x xs)
  then have "digit_val x \<le> 9" "dec xs < 10 ^ length xs"
    using digit_val_lt[of x] by (auto simp: all_digits_def)
  then have "digit_val x * 10 ^ length xs + dec xs < 9 * 10 ^ length xs + 10 ^ length xs"
    by (meson add_le_less_mono mult_le_mono1)
  then show ?case by (simp add: dec_Cons)
qed

lemma dec_less_iff:
  "length a = length c \<Longrightarrow> all_digits a \<Longrightarrow> all_digits c \<Longrightarrow>
     (a < c) = (dec a < dec c) \<and> (a = c) = (dec a = dec c)"
proof (induction a c rule: list_induct2)
  case Nil
  show ?case by (simp add: dec_def)
next
  case (Cons x xs y ys)
  then have d: "is_digit x" "is_digit y" "all_digits xs" "all_digits ys"
    by (simp_all add: all_digits_def)
  from Cons d have IH: "(xs < ys) = (dec xs < dec ys)" "(xs = ys) = (dec xs = dec ys)" by simp_all
  let ?p = "(10::nat) ^ length xs"
  have len: "length ys = length xs" using Cons by simp
  have bx: "dec xs < ?p" using dec_bound[OF d(3)] .
  have by': "dec ys < ?p" using dec_bound[OF d(4)] len by simp
  have "digit_val x < digit_val y \<Longrightarrow> digit_val x * ?p + dec xs < digit_val y * ?p + dec ys"
  proof -
    assume "digit_val x < digit_val y"
    then have "(digit_val x + 1) * ?p \<le> digit_val y * ?p"
      by (intro mult_le_mono1) simp
    with bx show ?thesis by (simp add: algebra_simps)
  qed
  moreover have "digit_val y < digit_val x \<Longrightarrow> digit_val y * ?p + dec ys < digit_val x * ?p + dec xs"
  proof -
    assume "digit_val y < digit_val x"
    then have "(digit_val y + 1) * ?p \<le> digit_val x * ?p"
      by (intro mult_le_mono1) simp
    with by' show ?thesis by (simp add: algebra_simps)
  qed
  ultimately have A: "digit_val x < digit_val y \<Longrightarrow> digit_val x * ?p + dec xs < digit_val y * ?p + dec ys"
    and B: "digit_val y < digit_val x \<Longrightarrow> digit_val y * ?p + dec ys < digit_val x * ?p + dec xs"
    by blast+
  consider "digit_val x < digit_val y" | "digit_val x = digit_val y" | "digit_val y < digit_val x"
    by linarith
  then show ?case
  proof cases
    case 1
    with A[OF 1] show ?thesis
      unfolding dec_Cons len Cons_less_Cons list.inject digit_less_iff[OF d(1,2)] digit_eq_iff[OF d(1,2)]
      by simp
  next
    case 2
    then show ?thesis
      unfolding dec_Cons len Cons_less_Cons list.inject digit_less_iff[OF d(1,2)] digit_eq_iff[OF d(1,2)] IH
      by simp
  next
    case 3
    with B[OF 3] show ?thesis
      unfolding dec_Cons len Cons_less_Cons list.inject digit_less_iff[OF d(1,2)] digit_eq_iff[OF d(1,2)]
      by simp
  qed
qed

lemma field_le:
  assumes "length a = length c" "all_digits a" "all_digits c"
  shows "(a @ r \<le> c @ r') = (dec a < dec c \<or> dec a = dec c \<and> r \<le> r')"
  using dec_less_iff[OF assms] lex_append_le[OF assms(1)] by simp

lemma sep_le: "((x::char) # r \<le> x # r') = (r \<le> r')"
  by simp

subsection \<open>Lexical order of timestamps is the order of their fields\<close>

lemma field_sep_le:
  assumes "length a = length c" "all_digits a" "all_digits c"
  shows "(a @ x # r \<le> c @ x # r') = (dec a < dec c \<or> dec a = dec c \<and> r \<le> r')"
  using field_le[OF assms, of "x # r" "x # r'"] by simp

lemma lex_tail:
  fixes x y :: nat
  shows "(x # xs < y # ys \<or> x # xs = y # ys \<and> P) = (x < y \<or> x = y \<and> (xs < ys \<or> xs = ys \<and> P))"
  by auto

lemma lex_nil: "(([]::nat list) < [] \<or> ([]::nat list) = [] \<and> P) = P"
  by simp

lemma mk_ts_le:
  assumes v: "valid_timestamp (mk_ts y1 y2 y3 y4 m1 m2 d1 d2 h1 h2 n1 n2 s1 s2 k1 k2 k3 sg o1 o2)"
    and v': "valid_timestamp (mk_ts y1' y2' y3' y4' m1' m2' d1' d2' h1' h2' n1' n2' s1' s2' k1' k2' k3' sg' o1' o2')"
  shows "(mk_ts y1 y2 y3 y4 m1 m2 d1 d2 h1 h2 n1 n2 s1 s2 k1 k2 k3 sg o1 o2
            \<le> mk_ts y1' y2' y3' y4' m1' m2' d1' d2' h1' h2' n1' n2' s1' s2' k1' k2' k3' sg' o1' o2')
       = (fields_of (mk_ts y1 y2 y3 y4 m1 m2 d1 d2 h1 h2 n1 n2 s1 s2 k1 k2 k3 sg o1 o2)
            < fields_of (mk_ts y1' y2' y3' y4' m1' m2' d1' d2' h1' h2' n1' n2' s1' s2' k1' k2' k3' sg' o1' o2')
          \<or> fields_of (mk_ts y1 y2 y3 y4 m1 m2 d1 d2 h1 h2 n1 n2 s1 s2 k1 k2 k3 sg o1 o2)
            = fields_of (mk_ts y1' y2' y3' y4' m1' m2' d1' d2' h1' h2' n1' n2' s1' s2' k1' k2' k3' sg' o1' o2')
            \<and> [sg, o1, o2] \<le> [sg', o1', o2'])"
proof -
  note d = v[unfolded valid_mk_ts] and d' = v'[unfolded valid_mk_ts]
  have app: "mk_ts a1 a2 a3 a4 b1 b2 c1 c2 e1 e2 f1 f2 g1 g2 i1 i2 i3 j1 j2 j3
     = [a1, a2, a3, a4] @ CHR ''-'' # [b1, b2] @ CHR ''-'' # [c1, c2] @ CHR ''T'' # [e1, e2] @ CHR '':'' #
       [f1, f2] @ CHR '':'' # [g1, g2] @ CHR ''.'' # [i1, i2, i3] @ [j1, j2, j3]"
    for a1 a2 a3 a4 b1 b2 c1 c2 e1 e2 f1 f2 g1 g2 i1 i2 i3 j1 j2 j3
    by (simp add: mk_ts_def)
  have f: "fields_of (mk_ts a1 a2 a3 a4 b1 b2 c1 c2 e1 e2 f1 f2 g1 g2 i1 i2 i3 j1 j2 j3)
     = [dec [a1, a2, a3, a4], dec [b1, b2], dec [c1, c2], dec [e1, e2], dec [f1, f2], dec [g1, g2], dec [i1, i2, i3]]"
    for a1 a2 a3 a4 b1 b2 c1 c2 e1 e2 f1 f2 g1 g2 i1 i2 i3 j1 j2 j3
    by (simp add: fields_of_def mk_ts_def year_of_def month_of_def day_of_def hour_of_def minute_of_def
        second_of_def milli_of_def slice_def)
  have Y: "length [y1, y2, y3, y4] = length [y1', y2', y3', y4']"
    "all_digits [y1, y2, y3, y4]" "all_digits [y1', y2', y3', y4']"
    using d d' by (simp_all add: all_digits_def)
  have M: "length [m1, m2] = length [m1', m2']" "all_digits [m1, m2]" "all_digits [m1', m2']"
    using d d' by (simp_all add: all_digits_def)
  have D: "length [d1, d2] = length [d1', d2']" "all_digits [d1, d2]" "all_digits [d1', d2']"
    using d d' by (simp_all add: all_digits_def)
  have H: "length [h1, h2] = length [h1', h2']" "all_digits [h1, h2]" "all_digits [h1', h2']"
    using d d' by (simp_all add: all_digits_def)
  have N: "length [n1, n2] = length [n1', n2']" "all_digits [n1, n2]" "all_digits [n1', n2']"
    using d d' by (simp_all add: all_digits_def)
  have S: "length [s1, s2] = length [s1', s2']" "all_digits [s1, s2]" "all_digits [s1', s2']"
    using d d' by (simp_all add: all_digits_def)
  have K: "length [k1, k2, k3] = length [k1', k2', k3']" "all_digits [k1, k2, k3]" "all_digits [k1', k2', k3']"
    using d d' by (simp_all add: all_digits_def)
  show ?thesis
    unfolding f lex_tail lex_nil
    unfolding app
    by (simp only: field_sep_le[OF Y] field_sep_le[OF M] field_sep_le[OF D] field_sep_le[OF H]
        field_sep_le[OF N] field_sep_le[OF S] field_le[OF K])
qed

subsection \<open>The day count grows with the date\<close>

lemma days_before_month_step:
  assumes "1 \<le> m" "m \<le> 11"
  shows "days_before_month y (Suc m) = days_before_month y m + int (days_in_month y m)"
proof -
  from assms have "m = 1 \<or> m = 2 \<or> m = 3 \<or> m = 4 \<or> m = 5 \<or> m = 6 \<or> m = 7 \<or> m = 8 \<or> m = 9
      \<or> m = 10 \<or> m = 11" by arith
  then show ?thesis
    by (elim disjE) (simp_all add: days_before_month_def DAYS_BEFORE_MONTH_def days_in_month_def)
qed

lemma days_before_month_12: "days_before_month y 12 + 31 = days_in_year y"
  by (simp add: days_before_month_def DAYS_BEFORE_MONTH_def days_in_year_def)

lemma days_before_month_mono:
  assumes "1 \<le> m" "m < m'" "m' \<le> 12"
  shows "days_before_month y m + int (days_in_month y m) \<le> days_before_month y m'"
  using assms(2,3)
proof (induction m')
  case 0
  then show ?case by simp
next
  case (Suc k)
  show ?case
  proof (cases "m = k")
    case True
    with Suc assms(1) show ?thesis
      using days_before_month_step[of k y] by simp
  next
    case False
    with Suc have "m < k" "k \<le> 12" "1 \<le> k" "k \<le> 11" using assms(1) by simp_all
    then have "days_before_month y m + int (days_in_month y m) \<le> days_before_month y k"
      using Suc.IH by simp
    also have "\<dots> \<le> days_before_month y (Suc k)"
      using days_before_month_step[OF \<open>1 \<le> k\<close> \<open>k \<le> 11\<close>, of y] by simp
    finally show ?thesis .
  qed
qed

lemma days_before_month_nonneg: "1 \<le> m \<Longrightarrow> m \<le> 12 \<Longrightarrow> 0 \<le> days_before_month y m"
proof -
  assume "1 \<le> m" "m \<le> 12"
  then have "m = 1 \<or> m = 2 \<or> m = 3 \<or> m = 4 \<or> m = 5 \<or> m = 6 \<or> m = 7 \<or> m = 8 \<or> m = 9
      \<or> m = 10 \<or> m = 11 \<or> m = 12" by arith
  then show ?thesis
    by (elim disjE) (simp_all add: days_before_month_def DAYS_BEFORE_MONTH_def)
qed

lemma day_in_year:
  assumes "1 \<le> m" "m \<le> 12" "d \<le> days_in_month y m"
  shows "days_before_month y m + int d \<le> days_in_year y"
proof (cases "m = 12")
  case True
  with assms(3) show ?thesis
    using days_before_month_12[of y] by (simp add: days_in_month_def)
next
  case False
  with assms have "m < 12" by simp
  from days_before_month_mono[OF assms(1) this, of y] assms(3)
  show ?thesis using days_before_month_12[of y] by simp
qed

lemma int_div_step:
  fixes a k :: int
  assumes "0 < k"
  shows "a div k - (a - 1) div k = (if a mod k = 0 then 1 else 0)"
proof (cases "a mod k = 0")
  case True
  have "a = k * (a div k) + a mod k" by simp
  with True have "a - 1 = k * (a div k - 1) + (k - 1)" by (simp add: algebra_simps)
  then have "(a - 1) div k = a div k - 1"
    using assms by (intro int_div_pos_eq[of _ _ _ "k - 1"]) simp_all
  with True show ?thesis by simp
next
  case False
  have r: "0 \<le> a mod k" "a mod k < k" using assms by simp_all
  have "a = k * (a div k) + a mod k" by simp
  then have "a - 1 = k * (a div k) + (a mod k - 1)" by simp
  then have "(a - 1) div k = a div k"
    using r False by (intro int_div_pos_eq[of _ _ _ "a mod k - 1"]) simp_all
  with False show ?thesis by simp
qed

lemma nat_mod_int: "(y mod k = 0) = (int y mod int k = 0)"
  by (metis of_nat_eq_0_iff of_nat_mod)

lemma leap_arith:
  fixes a q4 q4' q100 q100' q400 q400' :: int
  assumes "q4 - q4' = (if p4 then 1 else 0)" "q100 - q100' = (if p100 then 1 else 0)"
    "q400 - q400' = (if p400 then 1 else 0)" "p400 \<Longrightarrow> p100" "p100 \<Longrightarrow> p4"
  shows "a * 365 + q4 - q100 + q400
      = ((a - 1) * 365 + q4' - q100' + q400') + (if p4 \<and> (\<not> p100 \<or> p400) then 366 else 365)"
  using assms by (cases p4; cases p100; cases p400; simp)

lemma days_before_year_step:
  assumes "1 \<le> y"
  shows "days_before_year (Suc y) = days_before_year y + days_in_year y"
proof -
  define a where "a = int y"
  have m: "(y mod 4 = 0) = (a mod 4 = 0)" "(y mod 100 = 0) = (a mod 100 = 0)"
    "(y mod 400 = 0) = (a mod 400 = 0)"
    unfolding a_def using nat_mod_int[of y 4] nat_mod_int[of y 100] nat_mod_int[of y 400] by simp_all
  have e4: "a div 4 - (a - 1) div 4 = (if a mod 4 = 0 then 1 else 0)"
    by (rule int_div_step) simp
  have e100: "a div 100 - (a - 1) div 100 = (if a mod 100 = 0 then 1 else 0)"
    by (rule int_div_step) simp
  have e400: "a div 400 - (a - 1) div 400 = (if a mod 400 = 0 then 1 else 0)"
    by (rule int_div_step) simp
  have "(100::int) dvd 400" "(4::int) dvd 100" by simp_all
  then have i: "a mod 400 = 0 \<Longrightarrow> a mod 100 = 0" "a mod 100 = 0 \<Longrightarrow> a mod 4 = 0"
    by (meson dvd_trans mod_eq_0_iff_dvd)+
  have s: "int (Suc y) - 1 = a" by (simp add: a_def)
  have 1: "days_before_year (Suc y) = a * 365 + a div 4 - a div 100 + a div 400"
    unfolding days_before_year_def Let_def s ..
  have 2: "days_before_year y = (a - 1) * 365 + (a - 1) div 4 - (a - 1) div 100 + (a - 1) div 400"
    unfolding days_before_year_def Let_def a_def ..
  have 3: "days_in_year y = (if a mod 4 = 0 \<and> (\<not> a mod 100 = 0 \<or> a mod 400 = 0) then 366 else 365)"
    unfolding days_in_year_def is_leap_def m ..
  show ?thesis
    unfolding 1 2 3 by (rule leap_arith[OF e4 e100 e400 i])
qed

lemma days_in_year_pos: "365 \<le> days_in_year y"
  by (simp add: days_in_year_def)

lemma days_before_year_mono:
  assumes "1 \<le> y" "y < y'"
  shows "days_before_year y + days_in_year y \<le> days_before_year y'"
  using assms(2)
proof (induction y')
  case 0
  then show ?case by simp
next
  case (Suc k)
  show ?case
  proof (cases "y = k")
    case True
    then show ?thesis using days_before_year_step[OF assms(1)] by simp
  next
    case False
    with Suc have "y < k" by simp
    then have "days_before_year y + days_in_year y \<le> days_before_year k" using Suc.IH by simp
    also have "\<dots> \<le> days_before_year (Suc k)"
      using days_before_year_step[of k] days_in_year_pos[of k] assms(1) \<open>y < k\<close> by simp
    finally show ?thesis .
  qed
qed

lemma ymd2ord_mono:
  assumes "1 \<le> y" "1 \<le> m" "m \<le> 12" "1 \<le> d" "d \<le> days_in_month y m"
    and "1 \<le> y'" "1 \<le> m'" "m' \<le> 12" "1 \<le> d'" "d' \<le> days_in_month y' m'"
    and "[y, m, d] < [y', m', d']"
  shows "ymd2ord y m d < ymd2ord y' m' d'"
proof -
  from assms(11) consider "y < y'" | "y = y'" "m < m'" | "y = y'" "m = m'" "d < d'"
    by auto
  then show ?thesis
  proof cases
    case 1
    have "ymd2ord y m d \<le> days_before_year y + days_in_year y"
      unfolding ymd2ord_def using day_in_year[OF assms(2,3,5)] by simp
    also have "\<dots> \<le> days_before_year y'"
      by (rule days_before_year_mono[OF assms(1) 1])
    also have "\<dots> < ymd2ord y' m' d'"
      unfolding ymd2ord_def using days_before_month_nonneg[OF assms(7,8), of y'] assms(9) by simp
    finally show ?thesis .
  next
    case 2
    have "days_before_month y m + int d \<le> days_before_month y m + int (days_in_month y m)"
      using assms(5) by simp
    also have "\<dots> \<le> days_before_month y m'"
      by (rule days_before_month_mono[OF assms(2) 2(2) assms(8)])
    also have "\<dots> < days_before_month y m' + int d'"
      using assms(9) by simp
    finally show ?thesis unfolding ymd2ord_def 2(1) by simp
  next
    case 3
    then show ?thesis unfolding ymd2ord_def by simp
  qed
qed

subsection \<open>Chronological order and the order of the fields\<close>

lemma time_lex_arith:
  fixes A A' off :: int and h n s k h' n' s' k' :: nat
  assumes le: "(((A * 24 + int h - off) * 60 + int n) * 60 + int s) * 1000 + int k
         \<le> (((A' * 24 + int h' - off) * 60 + int n') * 60 + int s') * 1000 + int k'"
    and b: "h \<le> 23" "n \<le> 59" "s \<le> 59" "k \<le> 999"
    and b': "h' \<le> 23" "n' \<le> 59" "s' \<le> 59" "k' \<le> 999"
  shows "A < A' \<or> (A = A' \<and> [h, n, s, k] \<le> [h', n', s', k'])"
proof -
  have le': "A * 86400000 + int h * 3600000 + int n * 60000 + int s * 1000 + int k
         \<le> A' * 86400000 + int h' * 3600000 + int n' * 60000 + int s' * 1000 + int k'"
    using le by (simp add: algebra_simps)
  have 1: "A \<le> A'" using le' b b' by linarith
  have 2: "A = A' \<Longrightarrow> h \<le> h'" using le' b b' by linarith
  have 3: "A = A' \<Longrightarrow> h = h' \<Longrightarrow> n \<le> n'" using le' b b' by linarith
  have 4: "A = A' \<Longrightarrow> h = h' \<Longrightarrow> n = n' \<Longrightarrow> s \<le> s'" using le' b b' by linarith
  have 5: "A = A' \<Longrightarrow> h = h' \<Longrightarrow> n = n' \<Longrightarrow> s = s' \<Longrightarrow> k \<le> k'" using le' b b' by linarith
  show ?thesis
    using 1 2 3 4 5 by (simp add: list_le_def) (metis le_neq_implies_less order_le_less)
qed


lemma valid_fields_bounds:
  assumes "valid_timestamp t"
  shows "1 \<le> year_of t" "1 \<le> month_of t" "month_of t \<le> 12" "1 \<le> day_of t"
    "day_of t \<le> days_in_month (year_of t) (month_of t)"
    "hour_of t \<le> 23" "minute_of t \<le> 59" "second_of t \<le> 59" "milli_of t \<le> 999"
proof -
  from assms show "1 \<le> year_of t" "1 \<le> month_of t" "month_of t \<le> 12" "1 \<le> day_of t"
    "day_of t \<le> days_in_month (year_of t) (month_of t)"
    "hour_of t \<le> 23" "minute_of t \<le> 59" "second_of t \<le> 59"
    by (simp_all add: valid_timestamp_def)
  from assms have "all_digits (slice 20 23 t)" "length (slice 20 23 t) = 3"
    by (simp_all add: valid_timestamp_def slice_def)
  with dec_bound[of "slice 20 23 t"] have "milli_of t < 1000"
    by (simp add: milli_of_def)
  then show "milli_of t \<le> 999" by simp
qed

lemma offset_hours_cong:
  assumes "valid_timestamp t" "valid_timestamp t'" "offset_part t = offset_part t'"
  shows "offset_hours t = offset_hours t'"
proof -
  from assms(1) obtain y1 y2 y3 y4 m1 m2 d1 d2 h1 h2 n1 n2 s1 s2 k1 k2 k3 sg o1 o2
    where e: "t = mk_ts y1 y2 y3 y4 m1 m2 d1 d2 h1 h2 n1 n2 s1 s2 k1 k2 k3 sg o1 o2"
    by (rule valid_timestampE)
  from assms(2) obtain y1' y2' y3' y4' m1' m2' d1' d2' h1' h2' n1' n2' s1' s2' k1' k2' k3' sg' o1' o2'
    where e': "t' = mk_ts y1' y2' y3' y4' m1' m2' d1' d2' h1' h2' n1' n2' s1' s2' k1' k2' k3' sg' o1' o2'"
    by (rule valid_timestampE)
  from assms(3) show ?thesis
    unfolding e e' fields_mk_ts
    by (simp add: offset_hours_def slice_def mk_ts_def)
qed

lemma instant_fields:
  assumes v: "valid_timestamp t" and v': "valid_timestamp t'"
    and o: "offset_part t = offset_part t'" and le: "instant_ms t \<le> instant_ms t'"
  shows "fields_of t \<le> fields_of t'"
proof -
  note b = valid_fields_bounds[OF v] and b' = valid_fields_bounds[OF v']
  let ?A = "ymd2ord (year_of t) (month_of t) (day_of t)"
  let ?A' = "ymd2ord (year_of t') (month_of t') (day_of t')"
  let ?d = "[year_of t, month_of t, day_of t]"
  let ?d' = "[year_of t', month_of t', day_of t']"
  let ?c = "[hour_of t, minute_of t, second_of t, milli_of t]"
  let ?c' = "[hour_of t', minute_of t', second_of t', milli_of t']"
  have f: "fields_of t = ?d @ ?c" "fields_of t' = ?d' @ ?c'"
    by (simp_all add: fields_of_def)
  have len: "length ?d = length ?d'" by simp
  from le have "(((?A * 24 + int (hour_of t) - offset_hours t) * 60 + int (minute_of t)) * 60
        + int (second_of t)) * 1000 + int (milli_of t)
      \<le> (((?A' * 24 + int (hour_of t') - offset_hours t) * 60 + int (minute_of t')) * 60
        + int (second_of t')) * 1000 + int (milli_of t')"
    unfolding instant_ms_def offset_hours_cong[OF v v' o] .
  from time_lex_arith[OF this b(6-9) b'(6-9)]
  have A: "?A < ?A' \<or> (?A = ?A' \<and> ?c \<le> ?c')" .
  have up: "?d < ?d' \<Longrightarrow> ?A < ?A'"
    by (rule ymd2ord_mono[OF b(1-5) b'(1-5)])
  have down: "?d' < ?d \<Longrightarrow> ?A' < ?A"
    by (rule ymd2ord_mono[OF b'(1-5) b(1-5)])
  consider "?d < ?d'" | "?d = ?d'" | "?d' < ?d"
    using linorder_less_linear by blast
  then show ?thesis
  proof cases
    case 1
    have "?d @ ?c < ?d' @ ?c'"
      by (rule iffD2[OF lex_append_less[OF len]]) (use 1 in blast)
    then show ?thesis unfolding f by (rule less_imp_le)
  next
    case 2
    then have "?A = ?A'" by simp
    with A have c: "?c \<le> ?c'" by simp
    have "?d @ ?c \<le> ?d' @ ?c'"
      by (rule iffD2[OF lex_append_le[OF len]]) (use 2 c in blast)
    then show ?thesis unfolding f .
  next
    case 3
    from down[OF 3] A show ?thesis by simp
  qed
qed

subsection \<open>The fields of a window identifier\<close>

lemma valid_le_iff:
  assumes "valid_timestamp t" "valid_timestamp t'"
  shows "(t \<le> t') = (fields_of t < fields_of t'
            \<or> fields_of t = fields_of t' \<and> offset_part t \<le> offset_part t')"
proof -
  from assms(1) obtain y1 y2 y3 y4 m1 m2 d1 d2 h1 h2 n1 n2 s1 s2 k1 k2 k3 sg o1 o2
    where e: "t = mk_ts y1 y2 y3 y4 m1 m2 d1 d2 h1 h2 n1 n2 s1 s2 k1 k2 k3 sg o1 o2"
    by (rule valid_timestampE)
  from assms(2) obtain y1' y2' y3' y4' m1' m2' d1' d2' h1' h2' n1' n2' s1' s2' k1' k2' k3' sg' o1' o2'
    where e': "t' = mk_ts y1' y2' y3' y4' m1' m2' d1' d2' h1' h2' n1' n2' s1' s2' k1' k2' k3' sg' o1' o2'"
    by (rule valid_timestampE)
  show ?thesis
    using mk_ts_le[OF assms(1)[unfolded e] assms(2)[unfolded e']]
    unfolding e e' fields_mk_ts .
qed

lemma date_part_eq:
  assumes "valid_timestamp t" "valid_timestamp t'"
    and "year_of t = year_of t'" "month_of t = month_of t'" "day_of t = day_of t'"
  shows "date_part t = date_part t'"
proof -
  from assms(1) obtain y1 y2 y3 y4 m1 m2 d1 d2 h1 h2 n1 n2 s1 s2 k1 k2 k3 sg o1 o2
    where e: "t = mk_ts y1 y2 y3 y4 m1 m2 d1 d2 h1 h2 n1 n2 s1 s2 k1 k2 k3 sg o1 o2"
    by (rule valid_timestampE)
  from assms(2) obtain y1' y2' y3' y4' m1' m2' d1' d2' h1' h2' n1' n2' s1' s2' k1' k2' k3' sg' o1' o2'
    where e': "t' = mk_ts y1' y2' y3' y4' m1' m2' d1' d2' h1' h2' n1' n2' s1' s2' k1' k2' k3' sg' o1' o2'"
    by (rule valid_timestampE)
  note d = assms(1)[unfolded e valid_mk_ts] and d' = assms(2)[unfolded e' valid_mk_ts]
  have f: "year_of (mk_ts a1 a2 a3 a4 b1 b2 c1 c2 e1 e2 f1 f2 g1 g2 i1 i2 i3 j1 j2 j3) = dec [a1, a2, a3, a4]"
    "month_of (mk_ts a1 a2 a3 a4 b1 b2 c1 c2 e1 e2 f1 f2 g1 g2 i1 i2 i3 j1 j2 j3) = dec [b1, b2]"
    "day_of (mk_ts a1 a2 a3 a4 b1 b2 c1 c2 e1 e2 f1 f2 g1 g2 i1 i2 i3 j1 j2 j3) = dec [c1, c2]"
    for a1 a2 a3 a4 b1 b2 c1 c2 e1 e2 f1 f2 g1 g2 i1 i2 i3 j1 j2 j3
    by (simp_all add: mk_ts_def year_of_def month_of_def day_of_def slice_def)
  have "[y1, y2, y3, y4] = [y1', y2', y3', y4']"
    using dec_less_iff[of "[y1, y2, y3, y4]" "[y1', y2', y3', y4']"] d d' assms(3)
    unfolding e e' f by (simp add: all_digits_def)
  moreover have "[m1, m2] = [m1', m2']"
    using dec_less_iff[of "[m1, m2]" "[m1', m2']"] d d' assms(4)
    unfolding e e' f by (simp add: all_digits_def)
  moreover have "[d1, d2] = [d1', d2']"
    using dec_less_iff[of "[d1, d2]" "[d1', d2']"] d d' assms(5)
    unfolding e e' f by (simp add: all_digits_def)
  ultimately show ?thesis
    unfolding e e' fields_mk_ts by simp
qed

lemma floor10_digits: "b < 10 \<Longrightarrow> (10 * a + b) div 10 * 10 = 10 * (a::nat)"
  by simp

lemma window_fields:
  assumes "valid_timestamp t" "g \<in> set supported_aggregations"
  shows "\<exists>w. calc_aggregation_datetime [t] g = Inr [w]
     \<and> fields_of w = [year_of t, month_of t, day_of t,
          (if g = ''1day'' then 0 else hour_of t),
          (if g = ''minute'' then minute_of t
           else if g = ''10minutes'' then minute_of t div 10 * 10
           else if g = ''15minutes'' then minute_of t div 15 * 15 else 0), 0, 0]"
proof -
  from assms(1) obtain y1 y2 y3 y4 m1 m2 d1 d2 h1 h2 n1 n2 s1 s2 k1 k2 k3 sg o1 o2
    where t: "t = mk_ts y1 y2 y3 y4 m1 m2 d1 d2 h1 h2 n1 n2 s1 s2 k1 k2 k3 sg o1 o2"
    by (rule valid_timestampE)
  note v = assms(1)[unfolded t valid_mk_ts]
  from assms(2) consider "g = ''minute''" | "g = ''10minutes''" | "g = ''15minutes''" | "g = ''1hour''" | "g = ''1day''"
    by (auto simp: supported_aggregations_def)
  then show ?thesis
  proof cases
    case 1
    show ?thesis unfolding t 1
      by (simp add: calc_minute_mk_ts fields_of_def fields_mk_ts)
  next
    case 2
    have "digit_val n2 < 10" using v digit_val_lt by blast
    from floor10_digits[OF this, of "digit_val n1"]
    show ?thesis unfolding t 2
      by (simp add: calc_10minutes_mk_ts fields_of_def fields_mk_ts)
  next
    case 3
    from v have n: "is_digit n1" "is_digit n2" "10 * digit_val n1 + digit_val n2 \<le> 59" by simp_all
    from calc_15minutes_mk_ts[OF n, of y1 y2 y3 y4 m1 m2 d1 d2 h1 h2 s1 s2 k1 k2 k3 sg o1 o2]
    obtain q1 q2 where q: "calc_aggregation_datetime [t] ''15minutes'' =
       Inr [mk_ts y1 y2 y3 y4 m1 m2 d1 d2 h1 h2 q1 q2 CHR ''0'' CHR ''0'' CHR ''0'' CHR ''0'' CHR ''0'' sg o1 o2]"
       "10 * digit_val q1 + digit_val q2 = (10 * digit_val n1 + digit_val n2) div 15 * 15"
      unfolding t by blast
    show ?thesis unfolding 3 q(1)
      using q(2) by (simp add: fields_of_def fields_mk_ts t)
  next
    case 4
    show ?thesis unfolding t 4
      by (simp add: calc_1hour_mk_ts fields_of_def fields_mk_ts)
  next
    case 5
    have "fields_of DATE_CHANGE_WINTER = [2017, 10, 29, 0, 0, 0, 0]"
      unfolding DATE_CHANGE_WINTER_mk_ts fields_of_def fields_mk_ts by simp
    moreover have "[y1, y2, y3, y4, CHR ''-'', m1, m2, CHR ''-'', d1, d2] = ''2017-10-29'' \<Longrightarrow>
      1000 * digit_val y1 + 100 * digit_val y2 + 10 * digit_val y3 + digit_val y4 = 2017
      \<and> 10 * digit_val m1 + digit_val m2 = 10 \<and> 10 * digit_val d1 + digit_val d2 = 29"
      by simp
    ultimately show ?thesis unfolding t 5 calc_1day_mk_ts
      by (simp add: fields_of_def fields_mk_ts)
  qed
qed

lemma window_fields_mono:
  assumes v: "valid_timestamp t" "valid_timestamp t'" and g: "g \<in> set supported_aggregations"
    and le: "fields_of t \<le> fields_of t'"
    and w: "calc_aggregation_datetime [t] g = Inr [w]" "calc_aggregation_datetime [t'] g = Inr [w']"
  shows "fields_of w \<le> fields_of w'"
proof -
  define N where "N = (\<lambda>n::nat. if g = ''minute'' then n
           else if g = ''10minutes'' then n div 10 * 10
           else if g = ''15minutes'' then n div 15 * 15 else 0)"
  have Nmono: "n \<le> n' \<Longrightarrow> N n \<le> N n'" for n n'
    unfolding N_def by (simp add: div_le_mono)
  from window_fields[OF v(1) g] w(1)
  have f: "fields_of w = [year_of t, month_of t, day_of t,
          (if g = ''1day'' then 0 else hour_of t), N (minute_of t), 0, 0]"
    unfolding N_def by simp
  from window_fields[OF v(2) g] w(2)
  have f': "fields_of w' = [year_of t', month_of t', day_of t',
          (if g = ''1day'' then 0 else hour_of t'), N (minute_of t'), 0, 0]"
    unfolding N_def by simp
  show ?thesis
  proof (cases "g = ''1day''")
    case True
    let ?d = "[year_of t, month_of t, day_of t]"
    let ?d' = "[year_of t', month_of t', day_of t']"
    have len: "length ?d = length ?d'" by simp
    have "fields_of t = ?d @ [hour_of t, minute_of t, second_of t, milli_of t]"
      "fields_of t' = ?d' @ [hour_of t', minute_of t', second_of t', milli_of t']"
      by (simp_all add: fields_of_def)
    with le have "?d < ?d' \<or> ?d = ?d'"
      using lex_append_le[OF len] by auto
    moreover have "N n = 0" for n using True by (simp add: N_def)
    ultimately have "?d @ [0, 0, 0, 0] \<le> ?d' @ [0, 0, 0, 0]"
      using lex_append_le[OF len, of "[0, 0, 0, 0]" "[0, 0, 0, 0]"] by blast
    moreover have "fields_of w = ?d @ [0, 0, 0, 0]" "fields_of w' = ?d' @ [0, 0, 0, 0]"
      unfolding f f' using True \<open>\<And>n. N n = 0\<close> by simp_all
    ultimately show ?thesis by simp
  next
    case False
    let ?p = "[year_of t, month_of t, day_of t, hour_of t]"
    let ?p' = "[year_of t', month_of t', day_of t', hour_of t']"
    have len: "length ?p = length ?p'" by simp
    have "fields_of t = ?p @ [minute_of t, second_of t, milli_of t]"
      "fields_of t' = ?p' @ [minute_of t', second_of t', milli_of t']"
      by (simp_all add: fields_of_def)
    with le have "?p < ?p' \<or> ?p = ?p' \<and> [minute_of t, second_of t, milli_of t]
          \<le> [minute_of t', second_of t', milli_of t']"
      using lex_append_le[OF len] by auto
    then have "?p < ?p' \<or> ?p = ?p' \<and> minute_of t \<le> minute_of t'"
      by (auto simp: list_le_def)
    then have "?p < ?p' \<or> ?p = ?p' \<and> [N (minute_of t), 0, 0] \<le> [N (minute_of t'), 0, 0]"
      using Nmono[of "minute_of t" "minute_of t'"] by (auto simp: list_le_def)
    then have "?p @ [N (minute_of t), 0, 0] \<le> ?p' @ [N (minute_of t'), 0, 0]"
      using lex_append_le[OF len, of "[N (minute_of t), 0, 0]" "[N (minute_of t'), 0, 0]"] by blast
    moreover have "fields_of w = ?p @ [N (minute_of t), 0, 0]" "fields_of w' = ?p' @ [N (minute_of t'), 0, 0]"
      unfolding f f' using False by simp_all
    ultimately show ?thesis by simp
  qed
qed

section \<open>Monotonicity of the window assigner\<close>

lemma valid_timestamp_dst:
  "valid_timestamp ''2017-10-29T02:30:00.000+02''"
  "valid_timestamp ''2017-10-29T02:10:00.000+01''"
  by (simp_all add: valid_timestamp_def slice_def all_digits_def year_of_def month_of_def day_of_def
        hour_of_def minute_of_def second_of_def dec_def days_in_month_def)

text \<open>
  C3, as stated, fails. In the hour that the clock change repeats, 02:30 with offset
  +02 is 40 minutes earlier than 02:10 with offset +01, but its window identifier at
  level minute is lexically larger.
\<close>

theorem C3_counterexample_mixed_offsets:
  "valid_timestamp ''2017-10-29T02:30:00.000+02'' \<and> valid_timestamp ''2017-10-29T02:10:00.000+01''
   \<and> ''minute'' \<in> set supported_aggregations
   \<and> instant_ms ''2017-10-29T02:30:00.000+02'' \<le> instant_ms ''2017-10-29T02:10:00.000+01''
   \<and> calc_aggregation_datetime [''2017-10-29T02:30:00.000+02''] ''minute'' = Inr [''2017-10-29T02:30:00.000+02'']
   \<and> calc_aggregation_datetime [''2017-10-29T02:10:00.000+01''] ''minute'' = Inr [''2017-10-29T02:10:00.000+01'']
   \<and> \<not> (''2017-10-29T02:30:00.000+02'' \<le> ''2017-10-29T02:10:00.000+01'')"
proof -
  have "instant_ms ''2017-10-29T02:30:00.000+02'' \<le> instant_ms ''2017-10-29T02:10:00.000+01''"
    by (simp add: instant_ms_def offset_hours_def ymd2ord_def days_before_year_def days_before_month_def
        DAYS_BEFORE_MONTH_def is_leap_def year_of_def month_of_def day_of_def hour_of_def minute_of_def
        second_of_def milli_of_def slice_def dec_def)
  moreover have "calc_aggregation_datetime [''2017-10-29T02:30:00.000+02''] ''minute'' = Inr [''2017-10-29T02:30:00.000+02'']"
    "calc_aggregation_datetime [''2017-10-29T02:10:00.000+01''] ''minute'' = Inr [''2017-10-29T02:10:00.000+01'']"
    by (simp_all add: calc_aggregation_datetime_def agg_minute_def py_last3_def)
  moreover have "\<not> (''2017-10-29T02:30:00.000+02'' \<le> ''2017-10-29T02:10:00.000+01'')"
    by simp
  moreover have "''minute'' \<in> set supported_aggregations"
    by (simp add: supported_aggregations_def)
  ultimately show ?thesis using valid_timestamp_dst by blast
qed

text \<open>
  C3, amended. For every supported aggregation level and every two valid timestamps
  with the same offset suffix, if the first is chronologically earlier than or equal to
  the second, then its window identifier is lexically less than or equal to the window
  identifier of the second.
\<close>

theorem C3_same_offset_monotone:
  assumes v: "valid_timestamp t1" "valid_timestamp t2" and g: "g \<in> set supported_aggregations"
    and o: "offset_part t1 = offset_part t2" and le: "instant_ms t1 \<le> instant_ms t2"
  shows "\<exists>w1 w2. calc_aggregation_datetime [t1] g = Inr [w1]
           \<and> calc_aggregation_datetime [t2] g = Inr [w2] \<and> w1 \<le> w2"
proof -
  let ?off = "\<lambda>t. if g = ''1day'' \<and> date_part t = ''2017-10-29'' \<and> offset_part t = ''+01''
                          then ''+02'' else offset_part t"
  from window_of_valid[OF v(1) g] obtain w1 where
    w1: "calc_aggregation_datetime [t1] g = Inr [w1]" "valid_timestamp w1" "offset_part w1 = ?off t1"
    by blast
  from window_of_valid[OF v(2) g] obtain w2 where
    w2: "calc_aggregation_datetime [t2] g = Inr [w2]" "valid_timestamp w2" "offset_part w2 = ?off t2"
    by blast
  have fl: "fields_of t1 \<le> fields_of t2"
    by (rule instant_fields[OF v o le])
  have fw: "fields_of w1 \<le> fields_of w2"
    by (rule window_fields_mono[OF v g fl w1(1) w2(1)])
  have "w1 \<le> w2"
  proof (cases "fields_of w1 = fields_of w2")
    case False
    with fw have "fields_of w1 < fields_of w2" by simp
    then show ?thesis
      using valid_le_iff[OF w1(2) w2(2)] by blast
  next
    case True
    from window_fields[OF v(1) g] w1(1)
    have f1: "take 3 (fields_of w1) = [year_of t1, month_of t1, day_of t1]" by auto
    from window_fields[OF v(2) g] w2(1)
    have f2: "take 3 (fields_of w2) = [year_of t2, month_of t2, day_of t2]" by auto
    from True f1 f2 have "year_of t1 = year_of t2" "month_of t1 = month_of t2" "day_of t1 = day_of t2"
      by simp_all
    then have "date_part t1 = date_part t2"
      by (rule date_part_eq[OF v])
    with o w1(3) w2(3) have "offset_part w1 = offset_part w2" by simp
    with True show ?thesis
      using valid_le_iff[OF w1(2) w2(2)] by simp
  qed
  with w1(1) w2(1) show ?thesis by blast
qed

lemma valid_timestamp_same_offset:
  "valid_timestamp ''2017-10-01T00:07:23.500+02''"
  "valid_timestamp ''2017-10-01T00:17:00.000+02''"
  by (simp_all add: valid_timestamp_def slice_def all_digits_def year_of_def month_of_def day_of_def
        hour_of_def minute_of_def second_of_def dec_def days_in_month_def)

theorem C3_same_offset_monotone_witness:
  "valid_timestamp ''2017-10-01T00:07:23.500+02'' \<and> valid_timestamp ''2017-10-01T00:17:00.000+02''
   \<and> ''15minutes'' \<in> set supported_aggregations
   \<and> offset_part ''2017-10-01T00:07:23.500+02'' = offset_part ''2017-10-01T00:17:00.000+02''
   \<and> instant_ms ''2017-10-01T00:07:23.500+02'' \<le> instant_ms ''2017-10-01T00:17:00.000+02''
   \<and> (\<exists>w1 w2. calc_aggregation_datetime [''2017-10-01T00:07:23.500+02''] ''15minutes'' = Inr [w1]
           \<and> calc_aggregation_datetime [''2017-10-01T00:17:00.000+02''] ''15minutes'' = Inr [w2] \<and> w1 \<le> w2)"
proof -
  have g: "''15minutes'' \<in> set supported_aggregations"
    by (simp add: supported_aggregations_def)
  have o: "offset_part ''2017-10-01T00:07:23.500+02'' = offset_part ''2017-10-01T00:17:00.000+02''"
    by (simp add: offset_part_def slice_def)
  have le: "instant_ms ''2017-10-01T00:07:23.500+02'' \<le> instant_ms ''2017-10-01T00:17:00.000+02''"
    by (simp add: instant_ms_def offset_hours_def ymd2ord_def days_before_year_def days_before_month_def
        DAYS_BEFORE_MONTH_def is_leap_def year_of_def month_of_def day_of_def hour_of_def minute_of_def
        second_of_def milli_of_def slice_def dec_def)
  from C3_same_offset_monotone[OF valid_timestamp_same_offset g o le] valid_timestamp_same_offset g o le
  show ?thesis by blast
qed

section \<open>The weekday column\<close>

subsection \<open>Weekday numbers\<close>

lemma ymd2ord_2017_10_2: "ymd2ord 2017 10 2 = 736604"
  by (simp add: ymd2ord_def days_before_year_def days_before_month_def DAYS_BEFORE_MONTH_def
      is_leap_def)

lemma weekday_since_monday:
  "dt_weekday dt + 1 = 1 + (toordinal dt - ymd2ord 2017 10 2) mod 7"
proof -
  have "(t - 736604) mod 7 = (t + 6) mod 7" for t :: int
  proof -
    have "t - 736604 = t + 6 + 7 * (- 105230)" by simp
    then show ?thesis by (simp only: mod_mult_self2)
  qed
  then show ?thesis
    by (simp only: dt_weekday_def ymd2ord_2017_10_2)
qed

lemma weekday_of_parsed:
  "parse x = Inr dt \<Longrightarrow> weekday parse x = Inr (1 + (toordinal dt - ymd2ord 2017 10 2) mod 7)"
  by (simp add: weekday_def weekday_since_monday)

lemma date_part_fields:
  assumes "date_part x = [a, b, c, d, s, e, f, s', g, h]"
  shows "year_of x = dec [a, b, c, d]" "month_of x = dec [e, f]" "day_of x = dec [g, h]"
proof -
  have t: "take 10 x = [a, b, c, d, s, e, f, s', g, h]"
    using assms by (simp add: date_part_def slice_def)
  have "slice 0 4 x = take 4 (take 10 x)" "slice 5 7 x = take 2 (drop 5 (take 10 x))"
    "slice 8 10 x = take 2 (drop 8 (take 10 x))"
    by (simp_all add: slice_def drop_take)
  then show "year_of x = dec [a, b, c, d]" "month_of x = dec [e, f]" "day_of x = dec [g, h]"
    by (simp_all add: t year_of_def month_of_def day_of_def)
qed

lemma october_2017_ordinal: "ymd2ord 2017 10 d = 736602 + int d"
  by (simp add: ymd2ord_def days_before_year_def days_before_month_def DAYS_BEFORE_MONTH_def
      is_leap_def)

lemma weekday_of_date:
  assumes "parse x = Inr \<lparr>dt_year = year_of x, dt_month = month_of x, dt_day = day_of x\<rparr>"
  shows "date_part x = ''2017-10-02'' \<Longrightarrow> weekday parse x = Inr 1"
    "date_part x = ''2017-10-03'' \<Longrightarrow> weekday parse x = Inr 2"
    "date_part x = ''2017-10-04'' \<Longrightarrow> weekday parse x = Inr 3"
    "date_part x = ''2017-10-05'' \<Longrightarrow> weekday parse x = Inr 4"
    "date_part x = ''2017-10-06'' \<Longrightarrow> weekday parse x = Inr 5"
    "date_part x = ''2017-10-07'' \<Longrightarrow> weekday parse x = Inr 6"
    "date_part x = ''2017-10-08'' \<Longrightarrow> weekday parse x = Inr 7"
  by (simp_all add: weekday_of_parsed[where parse=parse and x=x, OF assms] toordinal_def
      date_part_fields dec_def digit_val_literals october_2017_ordinal)

subsection \<open>Inserting the column\<close>

lemma series_apply_weekday_labels:
  assumes "\<And>x. x \<in> set ids \<Longrightarrow> weekday parse x = Inr (f x)"
  shows "series_apply (weekday_of_label parse) (map StrV ids) = Inr (map (\<lambda>x. IntV (f x)) ids)"
  using assms by (induction ids) (simp_all add: weekday_of_label_def)

lemma insert_first_rows:
  "length ids = length rows \<Longrightarrow>
     map2 (\<lambda>r v. v # r) rows (map g ids) = map2 (\<lambda>x r. g x # r) ids rows"
  by (induction ids rows rule: list_induct2) simp_all

lemma add_weekday_feature_valid:
  assumes reads_date: "\<And>x. valid_timestamp x \<Longrightarrow>
        parse x = Inr \<lparr>dt_year = year_of x, dt_month = month_of x, dt_day = day_of x\<rparr>"
    and wf: "wf_dataframe feature_data"
    and fresh: "''weekday'' \<notin> set (df_columns feature_data)"
    and labels: "df_index feature_data = map StrV ids"
    and valid: "list_all valid_timestamp ids"
  shows "add_weekday_feature parse feature_data =
     Inr (feature_data\<lparr>df_columns := ''weekday'' # df_columns feature_data,
           df_rows := map2 (\<lambda>x r. IntV (1 + (ymd2ord (year_of x) (month_of x) (day_of x)
                                              - ymd2ord 2017 10 2) mod 7) # r)
                        ids (df_rows feature_data)\<rparr>)"
proof -
  define f where "f x = 1 + (ymd2ord (year_of x) (month_of x) (day_of x) - ymd2ord 2017 10 2) mod 7"
    for x
  have w: "weekday parse x = Inr (f x)" if "x \<in> set ids" for x
  proof -
    from that valid have "valid_timestamp x" by (simp add: list_all_iff)
    from weekday_of_parsed[where parse=parse and x=x, OF reads_date[OF this]]
    show ?thesis by (simp add: f_def toordinal_def)
  qed
  have s: "series_apply (weekday_of_label parse) (df_index feature_data)
             = Inr (map (\<lambda>x. IntV (f x)) ids)"
    unfolding labels using w by (rule series_apply_weekday_labels)
  have len: "length ids = length (df_rows feature_data)"
    using wf labels by (simp add: wf_dataframe_def)
  show ?thesis
    unfolding f_def[symmetric]
    by (simp add: add_weekday_feature_def s insert_column_def fresh
        insert_first_rows[OF len, where g="\<lambda>x. IntV (f x)"])
qed

subsection \<open>From one day to the next\<close>

lemma ymd2ord_next_day:
  "ymd2ord y m (Suc d) = ymd2ord y m d + 1"
  "1 \<le> m \<Longrightarrow> m \<le> 11 \<Longrightarrow> ymd2ord y (Suc m) 1 = ymd2ord y m (days_in_month y m) + 1"
  "1 \<le> y \<Longrightarrow> ymd2ord (Suc y) 1 1 = ymd2ord y 12 31 + 1"
proof -
  show "ymd2ord y m (Suc d) = ymd2ord y m d + 1"
    by (simp add: ymd2ord_def)
  show "ymd2ord y (Suc m) 1 = ymd2ord y m (days_in_month y m) + 1" if "1 \<le> m" "m \<le> 11"
    using days_before_month_step[OF that, of y] by (simp add: ymd2ord_def)
  show "ymd2ord (Suc y) 1 1 = ymd2ord y 12 31 + 1" if "1 \<le> y"
  proof -
    have c: "days_before_month (Suc y) 1 = 0"
      by (simp add: days_before_month_def DAYS_BEFORE_MONTH_def)
    from days_before_year_step[OF that] days_before_month_12[of y] c show ?thesis
      by (simp add: ymd2ord_def)
  qed
qed

lemma dt_weekday_next:
  assumes "toordinal dt' = toordinal dt + 1"
  shows "dt_weekday dt' + 1 = (dt_weekday dt + 1) mod 7 + 1"
proof -
  have "(t + 1 + 6) mod 7 = ((t + 6) mod 7 + 1) mod 7" for t :: int
    by (simp add: mod_simps)
  then show ?thesis
    by (simp only: dt_weekday_def assms)
qed

lemma weekday_next_day:
  assumes p: "parse x = Inr \<lparr>dt_year = year_of x, dt_month = month_of x, dt_day = day_of x\<rparr>"
    and p': "parse x' = Inr \<lparr>dt_year = year_of x', dt_month = month_of x', dt_day = day_of x'\<rparr>"
    and v: "valid_timestamp x" and v': "valid_timestamp x'"
    and n: "(year_of x' = year_of x \<and> month_of x' = month_of x \<and> day_of x' = day_of x + 1) \<or>
            (year_of x' = year_of x \<and> month_of x' = month_of x + 1 \<and>
               day_of x = days_in_month (year_of x) (month_of x) \<and> day_of x' = 1) \<or>
            (year_of x' = year_of x + 1 \<and> month_of x' = 1 \<and> day_of x' = 1 \<and>
               month_of x = 12 \<and> day_of x = 31)"
  shows "\<exists>k. weekday parse x = Inr k \<and> weekday parse x' = Inr (k mod 7 + 1)"
proof -
  note b = valid_fields_bounds(1-3)[OF v] and b' = valid_fields_bounds(1-3)[OF v']
  have "ymd2ord (year_of x') (month_of x') (day_of x')
          = ymd2ord (year_of x) (month_of x) (day_of x) + 1"
    using n
  proof (elim disjE conjE)
    assume "year_of x' = year_of x" "month_of x' = month_of x" "day_of x' = day_of x + 1"
    then show ?thesis
      using ymd2ord_next_day(1)[of "year_of x" "month_of x" "day_of x"] by simp
  next
    assume e: "year_of x' = year_of x" "month_of x' = month_of x + 1"
      "day_of x = days_in_month (year_of x) (month_of x)" "day_of x' = 1"
    with b'(3) have "month_of x \<le> 11" by simp
    from ymd2ord_next_day(2)[OF b(2) this, of "year_of x"] e show ?thesis
      by simp
  next
    assume e: "year_of x' = year_of x + 1" "month_of x' = 1" "day_of x' = 1"
      "month_of x = 12" "day_of x = 31"
    from ymd2ord_next_day(3)[OF b(1)] e show ?thesis
      by simp
  qed
  then have "toordinal \<lparr>dt_year = year_of x', dt_month = month_of x', dt_day = day_of x'\<rparr>
      = toordinal \<lparr>dt_year = year_of x, dt_month = month_of x, dt_day = day_of x\<rparr> + 1"
    by (simp add: toordinal_def)
  from dt_weekday_next[OF this] show ?thesis
    by (simp add: weekday_def p p')
qed

lemma date_part_determines_fields:
  assumes "date_part x = date_part x'"
  shows "year_of x = year_of x'" "month_of x = month_of x'" "day_of x = day_of x'"
proof -
  have "slice 0 4 t = take 4 (date_part t)" "slice 5 7 t = take 2 (drop 5 (date_part t))"
    "slice 8 10 t = take 2 (drop 8 (date_part t))" for t
    by (simp_all add: slice_def date_part_def drop_take)
  then show "year_of x = year_of x'" "month_of x = month_of x'" "day_of x = day_of x'"
    by (simp_all add: assms year_of_def month_of_def day_of_def)
qed

lemma ymd2ord_later_mondays:
  "ymd2ord 2017 11 6 = 736639" "ymd2ord 2017 12 25 = 736688" "ymd2ord 2018 1 1 = 736695"
  "ymd2ord 2016 2 29 = 736023" "ymd2ord 2018 (Suc 0) (Suc 0) = 736695"
  by (simp_all add: ymd2ord_def days_before_year_def days_before_month_def DAYS_BEFORE_MONTH_def
      is_leap_def)

lemma weekday_of_later_dates:
  assumes "parse x = Inr \<lparr>dt_year = year_of x, dt_month = month_of x, dt_day = day_of x\<rparr>"
  shows "date_part x = ''2017-11-06'' \<Longrightarrow> weekday parse x = Inr 1"
    "date_part x = ''2017-12-25'' \<Longrightarrow> weekday parse x = Inr 1"
    "date_part x = ''2018-01-01'' \<Longrightarrow> weekday parse x = Inr 1"
    "date_part x = ''2016-02-29'' \<Longrightarrow> weekday parse x = Inr 1"
  by (simp_all add: weekday_of_parsed[where parse=parse and x=x, OF assms] toordinal_def
      date_part_fields dec_def digit_val_literals ymd2ord_later_mondays ymd2ord_2017_10_2)

text \<open>
  C8. The weekday of a window identifier is computed from its date alone, and it is a
  number from 1 to 7. The date 2017-10-02, a Monday, gives 1, and the date of the next
  calendar day always gives the next number, with 1 after 7: the next day of the same
  month, the first of the next month after the last day of a month (28, 29, 30 or 31
  days, by month and leap year), and the first of January after the 31st of December.
  These two facts fix the number of every date, so Monday gives 1 and Sunday gives 7
  throughout: the week from Monday 2017-10-02 to Sunday 2017-10-08 gives 1 to 7, and the
  Mondays 2017-11-06, 2017-12-25, 2018-01-01 and 2016-02-29 give 1. In closed form the
  number is 1 plus the number of days since 2017-10-02, modulo 7. For a feature matrix
  whose row labels are window identifiers, \<open>extract_features_from_file\<close> puts these
  numbers in a new column \<open>weekday\<close>, which becomes the first column; the other columns
  and the row labels are unchanged. The date parser of dateutil is a parameter: it is
  assumed to read the year, month and day that a timestamp spells out.
\<close>

theorem C8_weekday_first_column:
  assumes reads_date: "\<And>x. valid_timestamp x \<Longrightarrow>
        parse x = Inr \<lparr>dt_year = year_of x, dt_month = month_of x, dt_day = day_of x\<rparr>"
    and wf: "wf_dataframe feature_data"
    and fresh: "''weekday'' \<notin> set (df_columns feature_data)"
    and labels: "df_index feature_data = map StrV ids"
    and valid: "list_all valid_timestamp ids"
  shows "(\<forall>x. valid_timestamp x \<longrightarrow>
            (\<exists>k. weekday parse x = Inr k \<and> 1 \<le> k \<and> k \<le> 7 \<and>
                 k = 1 + (ymd2ord (year_of x) (month_of x) (day_of x) - ymd2ord 2017 10 2) mod 7) \<and>
            (date_part x = ''2017-10-02'' \<longrightarrow> weekday parse x = Inr 1) \<and>
            (date_part x = ''2017-10-03'' \<longrightarrow> weekday parse x = Inr 2) \<and>
            (date_part x = ''2017-10-04'' \<longrightarrow> weekday parse x = Inr 3) \<and>
            (date_part x = ''2017-10-05'' \<longrightarrow> weekday parse x = Inr 4) \<and>
            (date_part x = ''2017-10-06'' \<longrightarrow> weekday parse x = Inr 5) \<and>
            (date_part x = ''2017-10-07'' \<longrightarrow> weekday parse x = Inr 6) \<and>
            (date_part x = ''2017-10-08'' \<longrightarrow> weekday parse x = Inr 7) \<and>
            (date_part x = ''2017-11-06'' \<longrightarrow> weekday parse x = Inr 1) \<and>
            (date_part x = ''2017-12-25'' \<longrightarrow> weekday parse x = Inr 1) \<and>
            (date_part x = ''2018-01-01'' \<longrightarrow> weekday parse x = Inr 1) \<and>
            (date_part x = ''2016-02-29'' \<longrightarrow> weekday parse x = Inr 1)) \<and>
         (\<forall>x x'. valid_timestamp x \<and> valid_timestamp x' \<and> date_part x = date_part x' \<longrightarrow>
            weekday parse x = weekday parse x') \<and>
         (\<forall>x x'. valid_timestamp x \<and> valid_timestamp x' \<and>
            ((year_of x' = year_of x \<and> month_of x' = month_of x \<and> day_of x' = day_of x + 1) \<or>
             (year_of x' = year_of x \<and> month_of x' = month_of x + 1 \<and>
                day_of x = days_in_month (year_of x) (month_of x) \<and> day_of x' = 1) \<or>
             (year_of x' = year_of x + 1 \<and> month_of x' = 1 \<and> day_of x' = 1 \<and>
                month_of x = 12 \<and> day_of x = 31)) \<longrightarrow>
            (\<exists>k. weekday parse x = Inr k \<and> weekday parse x' = Inr (k mod 7 + 1))) \<and>
         (\<exists>result. add_weekday_feature parse feature_data = Inr result \<and>
            df_columns result = ''weekday'' # df_columns feature_data \<and>
            df_index result = df_index feature_data \<and>
            df_rows result =
              map2 (\<lambda>x r. IntV (1 + (ymd2ord (year_of x) (month_of x) (day_of x)
                                     - ymd2ord 2017 10 2) mod 7) # r)
                   ids (df_rows feature_data))"
proof -
  have one: "(\<exists>k. weekday parse x = Inr k \<and> 1 \<le> k \<and> k \<le> 7 \<and>
                 k = 1 + (ymd2ord (year_of x) (month_of x) (day_of x) - ymd2ord 2017 10 2) mod 7) \<and>
            (date_part x = ''2017-10-02'' \<longrightarrow> weekday parse x = Inr 1) \<and>
            (date_part x = ''2017-10-03'' \<longrightarrow> weekday parse x = Inr 2) \<and>
            (date_part x = ''2017-10-04'' \<longrightarrow> weekday parse x = Inr 3) \<and>
            (date_part x = ''2017-10-05'' \<longrightarrow> weekday parse x = Inr 4) \<and>
            (date_part x = ''2017-10-06'' \<longrightarrow> weekday parse x = Inr 5) \<and>
            (date_part x = ''2017-10-07'' \<longrightarrow> weekday parse x = Inr 6) \<and>
            (date_part x = ''2017-10-08'' \<longrightarrow> weekday parse x = Inr 7) \<and>
            (date_part x = ''2017-11-06'' \<longrightarrow> weekday parse x = Inr 1) \<and>
            (date_part x = ''2017-12-25'' \<longrightarrow> weekday parse x = Inr 1) \<and>
            (date_part x = ''2018-01-01'' \<longrightarrow> weekday parse x = Inr 1) \<and>
            (date_part x = ''2016-02-29'' \<longrightarrow> weekday parse x = Inr 1)"
    if v: "valid_timestamp x" for x
  proof (intro conjI impI)
    note p = reads_date[OF v]
    from weekday_of_parsed[where parse=parse and x=x, OF p]
    show "\<exists>k. weekday parse x = Inr k \<and> 1 \<le> k \<and> k \<le> 7 \<and>
            k = 1 + (ymd2ord (year_of x) (month_of x) (day_of x) - ymd2ord 2017 10 2) mod 7"
      by (simp add: toordinal_def)
    show "weekday parse x = Inr 1" if "date_part x = ''2017-10-02''"
      using that by (rule weekday_of_date(1)[where parse=parse and x=x, OF p])
    show "weekday parse x = Inr 2" if "date_part x = ''2017-10-03''"
      using that by (rule weekday_of_date(2)[where parse=parse and x=x, OF p])
    show "weekday parse x = Inr 3" if "date_part x = ''2017-10-04''"
      using that by (rule weekday_of_date(3)[where parse=parse and x=x, OF p])
    show "weekday parse x = Inr 4" if "date_part x = ''2017-10-05''"
      using that by (rule weekday_of_date(4)[where parse=parse and x=x, OF p])
    show "weekday parse x = Inr 5" if "date_part x = ''2017-10-06''"
      using that by (rule weekday_of_date(5)[where parse=parse and x=x, OF p])
    show "weekday parse x = Inr 6" if "date_part x = ''2017-10-07''"
      using that by (rule weekday_of_date(6)[where parse=parse and x=x, OF p])
    show "weekday parse x = Inr 7" if "date_part x = ''2017-10-08''"
      using that by (rule weekday_of_date(7)[where parse=parse and x=x, OF p])
    show "weekday parse x = Inr 1" if "date_part x = ''2017-11-06''"
      using that by (rule weekday_of_later_dates(1)[where parse=parse and x=x, OF p])
    show "weekday parse x = Inr 1" if "date_part x = ''2017-12-25''"
      using that by (rule weekday_of_later_dates(2)[where parse=parse and x=x, OF p])
    show "weekday parse x = Inr 1" if "date_part x = ''2018-01-01''"
      using that by (rule weekday_of_later_dates(3)[where parse=parse and x=x, OF p])
    show "weekday parse x = Inr 1" if "date_part x = ''2016-02-29''"
      using that by (rule weekday_of_later_dates(4)[where parse=parse and x=x, OF p])
  qed
  have two: "weekday parse x = weekday parse x'"
    if "valid_timestamp x \<and> valid_timestamp x' \<and> date_part x = date_part x'" for x x'
  proof -
    from that have v: "valid_timestamp x" and v': "valid_timestamp x'"
      and d: "date_part x = date_part x'"
      by blast+
    show ?thesis
      by (simp add: weekday_def reads_date[OF v] reads_date[OF v']
          date_part_determines_fields[OF d])
  qed
  have three: "\<exists>k. weekday parse x = Inr k \<and> weekday parse x' = Inr (k mod 7 + 1)"
    if "valid_timestamp x \<and> valid_timestamp x' \<and>
            ((year_of x' = year_of x \<and> month_of x' = month_of x \<and> day_of x' = day_of x + 1) \<or>
             (year_of x' = year_of x \<and> month_of x' = month_of x + 1 \<and>
                day_of x = days_in_month (year_of x) (month_of x) \<and> day_of x' = 1) \<or>
             (year_of x' = year_of x + 1 \<and> month_of x' = 1 \<and> day_of x' = 1 \<and>
                month_of x = 12 \<and> day_of x = 31))" for x x'
  proof -
    from that have v: "valid_timestamp x" and v': "valid_timestamp x'"
      by blast+
    from that have n: "(year_of x' = year_of x \<and> month_of x' = month_of x \<and> day_of x' = day_of x + 1) \<or>
             (year_of x' = year_of x \<and> month_of x' = month_of x + 1 \<and>
                day_of x = days_in_month (year_of x) (month_of x) \<and> day_of x' = 1) \<or>
             (year_of x' = year_of x + 1 \<and> month_of x' = 1 \<and> day_of x' = 1 \<and>
                month_of x = 12 \<and> day_of x = 31)"
      by blast
    show ?thesis
      by (rule weekday_next_day[where parse=parse, OF reads_date[OF v] reads_date[OF v'] v v' n])
  qed
  have four: "\<exists>result. add_weekday_feature parse feature_data = Inr result \<and>
            df_columns result = ''weekday'' # df_columns feature_data \<and>
            df_index result = df_index feature_data \<and>
            df_rows result =
              map2 (\<lambda>x r. IntV (1 + (ymd2ord (year_of x) (month_of x) (day_of x)
                                     - ymd2ord 2017 10 2) mod 7) # r)
                   ids (df_rows feature_data)"
    by (subst add_weekday_feature_valid[of parse feature_data ids, OF reads_date wf fresh labels valid])
       simp_all
  from one have one': "\<forall>x. valid_timestamp x \<longrightarrow>
            (\<exists>k. weekday parse x = Inr k \<and> 1 \<le> k \<and> k \<le> 7 \<and>
                 k = 1 + (ymd2ord (year_of x) (month_of x) (day_of x) - ymd2ord 2017 10 2) mod 7) \<and>
            (date_part x = ''2017-10-02'' \<longrightarrow> weekday parse x = Inr 1) \<and>
            (date_part x = ''2017-10-03'' \<longrightarrow> weekday parse x = Inr 2) \<and>
            (date_part x = ''2017-10-04'' \<longrightarrow> weekday parse x = Inr 3) \<and>
            (date_part x = ''2017-10-05'' \<longrightarrow> weekday parse x = Inr 4) \<and>
            (date_part x = ''2017-10-06'' \<longrightarrow> weekday parse x = Inr 5) \<and>
            (date_part x = ''2017-10-07'' \<longrightarrow> weekday parse x = Inr 6) \<and>
            (date_part x = ''2017-10-08'' \<longrightarrow> weekday parse x = Inr 7) \<and>
            (date_part x = ''2017-11-06'' \<longrightarrow> weekday parse x = Inr 1) \<and>
            (date_part x = ''2017-12-25'' \<longrightarrow> weekday parse x = Inr 1) \<and>
            (date_part x = ''2018-01-01'' \<longrightarrow> weekday parse x = Inr 1) \<and>
            (date_part x = ''2016-02-29'' \<longrightarrow> weekday parse x = Inr 1)"
    by (intro allI impI)
  from two have two': "\<forall>x x'. valid_timestamp x \<and> valid_timestamp x' \<and> date_part x = date_part x' \<longrightarrow>
            weekday parse x = weekday parse x'"
    by (intro allI impI)
  from three have three': "\<forall>x x'. valid_timestamp x \<and> valid_timestamp x' \<and>
            ((year_of x' = year_of x \<and> month_of x' = month_of x \<and> day_of x' = day_of x + 1) \<or>
             (year_of x' = year_of x \<and> month_of x' = month_of x + 1 \<and>
                day_of x = days_in_month (year_of x) (month_of x) \<and> day_of x' = 1) \<or>
             (year_of x' = year_of x + 1 \<and> month_of x' = 1 \<and> day_of x' = 1 \<and>
                month_of x = 12 \<and> day_of x = 31)) \<longrightarrow>
            (\<exists>k. weekday parse x = Inr k \<and> weekday parse x' = Inr (k mod 7 + 1))"
    by (intro allI impI)
  show ?thesis
    by (rule conjI[OF one' conjI[OF two' conjI[OF three' four]]])
qed

theorem C8_weekday_first_column_witness:
  "wf_dataframe \<lparr>df_index = [StrV ''2017-10-02T00:00:00.000+02'', StrV ''2017-10-08T00:15:00.000+02''],
                  df_columns = [''P_kW__mean''], df_rows = [[FloatV 5], [FloatV 1]]\<rparr> \<and>
   list_all valid_timestamp [''2017-10-02T00:00:00.000+02'', ''2017-10-08T00:15:00.000+02''] \<and>
   weekday (\<lambda>x. Inr \<lparr>dt_year = year_of x, dt_month = month_of x, dt_day = day_of x\<rparr>)
     ''2017-10-02T00:00:00.000+02'' = Inr 1 \<and>
   valid_timestamp ''2017-10-31T23:45:00.000+01'' \<and>
   valid_timestamp ''2017-11-01T00:00:00.000+01'' \<and>
   weekday (\<lambda>x. Inr \<lparr>dt_year = year_of x, dt_month = month_of x, dt_day = day_of x\<rparr>)
     ''2017-10-31T23:45:00.000+01'' = Inr 2 \<and>
   weekday (\<lambda>x. Inr \<lparr>dt_year = year_of x, dt_month = month_of x, dt_day = day_of x\<rparr>)
     ''2017-11-01T00:00:00.000+01'' = Inr 3 \<and>
   (\<exists>result.
      add_weekday_feature (\<lambda>x. Inr \<lparr>dt_year = year_of x, dt_month = month_of x, dt_day = day_of x\<rparr>)
        \<lparr>df_index = [StrV ''2017-10-02T00:00:00.000+02'', StrV ''2017-10-08T00:15:00.000+02''],
          df_columns = [''P_kW__mean''], df_rows = [[FloatV 5], [FloatV 1]]\<rparr> = Inr result \<and>
      df_columns result = [''weekday'', ''P_kW__mean''] \<and>
      df_rows result = [[IntV 1, FloatV 5], [IntV 7, FloatV 1]])"
proof -
  define P :: "string \<Rightarrow> error + datetime"
    where "P = (\<lambda>x. Inr \<lparr>dt_year = year_of x, dt_month = month_of x, dt_day = day_of x\<rparr>)"
  define ids where "ids = [''2017-10-02T00:00:00.000+02'', ''2017-10-08T00:15:00.000+02'']"
  define FD where "FD = \<lparr>df_index = map StrV ids, df_columns = [''P_kW__mean''],
                          df_rows = [[FloatV 5], [FloatV 1]]\<rparr>"
  define a where "a = ''2017-10-31T23:45:00.000+01''"
  define b where "b = ''2017-11-01T00:00:00.000+01''"
  have rd: "P x = Inr \<lparr>dt_year = year_of x, dt_month = month_of x, dt_day = day_of x\<rparr>" for x
    by (simp add: P_def)
  have wf: "wf_dataframe FD"
    by (simp add: FD_def ids_def wf_dataframe_def)
  have fresh: "''weekday'' \<notin> set (df_columns FD)"
    by (simp add: FD_def)
  have labels: "df_index FD = map StrV ids"
    by (simp add: FD_def)
  have valid: "list_all valid_timestamp ids"
    by (simp add: ids_def valid_timestamp_def slice_def all_digits_def year_of_def month_of_def
        day_of_def hour_of_def minute_of_def second_of_def dec_def days_in_month_def)
  have vab: "valid_timestamp a" "valid_timestamp b"
    by (simp_all add: a_def b_def valid_timestamp_def slice_def all_digits_def year_of_def
        month_of_def day_of_def hour_of_def minute_of_def second_of_def dec_def days_in_month_def)
  have fa: "year_of a = 2017" "month_of a = 10" "day_of a = 31"
    by (simp_all add: a_def year_of_def month_of_def day_of_def slice_def dec_def)
  have fb: "year_of b = 2017" "month_of b = 11" "day_of b = 1"
    by (simp_all add: b_def year_of_def month_of_def day_of_def slice_def dec_def)
  have f: "year_of x = 2017 \<and> month_of x = 10" if "x \<in> set ids" for x
    using that by (auto simp: ids_def year_of_def month_of_def slice_def dec_def)
  have d: "day_of (ids ! 0) = 2" "day_of (ids ! 1) = 8" "date_part (ids ! 0) = ''2017-10-02''"
    by (simp_all add: ids_def day_of_def date_part_def slice_def dec_def)
  note t = C8_weekday_first_column[of P FD ids, OF rd wf fresh labels valid]
  note t1 = t[THEN conjunct1, rule_format]
    and t3 = t[THEN conjunct2, THEN conjunct2, THEN conjunct1, rule_format]
    and t4 = t[THEN conjunct2, THEN conjunct2, THEN conjunct2]
  have v0: "valid_timestamp (ids ! 0)"
    using valid by (simp add: ids_def)
  from t1[OF v0, THEN conjunct2, THEN conjunct1] d(3) have w0: "weekday P (ids ! 0) = Inr 1"
    by (rule mp)
  from t1[OF vab(1), THEN conjunct1] have "\<exists>k. weekday P a = Inr k \<and>
      k = 1 + (ymd2ord (year_of a) (month_of a) (day_of a) - ymd2ord 2017 10 2) mod 7"
    by (elim exE conjE) (intro exI conjI)
  then have wa: "weekday P a = Inr 2"
    by (simp add: fa october_2017_ordinal)
  have nx: "valid_timestamp a \<and> valid_timestamp b \<and>
     ((year_of b = year_of a \<and> month_of b = month_of a \<and> day_of b = day_of a + 1) \<or>
      (year_of b = year_of a \<and> month_of b = month_of a + 1 \<and>
         day_of a = days_in_month (year_of a) (month_of a) \<and> day_of b = 1) \<or>
      (year_of b = year_of a + 1 \<and> month_of b = 1 \<and> day_of b = 1 \<and>
         month_of a = 12 \<and> day_of a = 31))"
    by (simp add: vab fa fb days_in_month_def)
  from t3[OF nx] have "\<exists>k. weekday P a = Inr k \<and> weekday P b = Inr (k mod 7 + 1)" .
  with wa have wb: "weekday P b = Inr 3"
    by simp
  from t4 obtain result where r: "add_weekday_feature P FD = Inr result"
      "df_columns result = ''weekday'' # df_columns FD"
      "df_rows result = map2 (\<lambda>x r. IntV (1 + (ymd2ord (year_of x) (month_of x) (day_of x)
                                     - ymd2ord 2017 10 2) mod 7) # r) ids (df_rows FD)"
    by (elim exE conjE)
  have rows: "df_rows result = [[IntV 1, FloatV 5], [IntV 7, FloatV 1]]"
    unfolding r(3) using f d(1,2)
    by (simp add: ids_def FD_def october_2017_ordinal)
  have cols: "df_columns result = [''weekday'', ''P_kW__mean'']"
    unfolding r(2) by (simp add: FD_def)
  from wf valid w0 vab wa wb r(1) rows cols show ?thesis
    unfolding P_def FD_def ids_def a_def b_def by simp
qed

section \<open>The machine state filter\<close>

subsection \<open>Three current channels\<close>

lemma machine_off_three_channels:
  "machine_off \<lparr>df_index = [i], df_columns = [''I1_A'', ''I2_A'', ''I3_A''],
                 df_rows = [[FloatV a, FloatV b, FloatV c]]\<rparr> threshold
     = Inr [\<bar>max (max a b) c\<bar> \<le> threshold]"
  by (simp add: machine_off_def select_columns_def row_max_def abs_le_def List.map_filter_simps
      max.commute)

text \<open>
  C2. With the three channels I1_A, I2_A, I3_A present, \<open>machine_off\<close> takes the largest
  of the three readings and compares its absolute value with the threshold. For the
  readings 0.1, 0.2, 0.35 and for 0.1, 0.2, 0.25 with threshold 0.3 this gives false and
  true, as the largest absolute value does. For the readings -5, 0.1, 0.2 the largest
  reading is 0.2, so the record counts as off, although the largest absolute value, 5, is
  above the threshold 0.3.
\<close>

theorem C2_machine_off_abs_of_max:
  "machine_off \<lparr>df_index = [IntV 0, IntV 1, IntV 2], df_columns = [''I1_A'', ''I2_A'', ''I3_A''],
                 df_rows = [[FloatV 0.1, FloatV 0.2, FloatV 0.35],
                            [FloatV 0.1, FloatV 0.2, FloatV 0.25],
                            [FloatV (- 5), FloatV 0.1, FloatV 0.2]]\<rparr> 0.3
     = Inr [False, True, True] \<and>
   \<not> max \<bar>- 5 :: real\<bar> (max \<bar>0.1\<bar> \<bar>0.2\<bar>) \<le> 0.3 \<and>
   machine_off \<lparr>df_index = [i], df_columns = [''I1_A'', ''I2_A'', ''I3_A''],
                 df_rows = [[FloatV a, FloatV b, FloatV c]]\<rparr> threshold
     = Inr [\<bar>max (max a b) c\<bar> \<le> threshold]"
proof (intro conjI)
  show "machine_off \<lparr>df_index = [IntV 0, IntV 1, IntV 2], df_columns = [''I1_A'', ''I2_A'', ''I3_A''],
                 df_rows = [[FloatV 0.1, FloatV 0.2, FloatV 0.35],
                            [FloatV 0.1, FloatV 0.2, FloatV 0.25],
                            [FloatV (- 5), FloatV 0.1, FloatV 0.2]]\<rparr> 0.3
     = Inr [False, True, True]"
    by (simp add: machine_off_def select_columns_def row_max_def abs_le_def List.map_filter_simps)
  show "\<not> max \<bar>- 5 :: real\<bar> (max \<bar>0.1\<bar> \<bar>0.2\<bar>) \<le> 0.3"
    by simp
  show "machine_off \<lparr>df_index = [i], df_columns = [''I1_A'', ''I2_A'', ''I3_A''],
                 df_rows = [[FloatV a, FloatV b, FloatV c]]\<rparr> threshold
     = Inr [\<bar>max (max a b) c\<bar> \<le> threshold]"
    by (rule machine_off_three_channels)
qed

subsection \<open>Selecting columns by name\<close>

lemma index_of_None: "index_of x xs = None \<longleftrightarrow> x \<notin> set xs"
  by (induction xs) auto

lemma index_of_nth: "distinct xs \<Longrightarrow> i < length xs \<Longrightarrow> index_of (xs ! i) xs = Some i"
proof (induction xs arbitrary: i)
  case Nil
  then show ?case by simp
next
  case (Cons y ys)
  show ?case
  proof (cases i)
    case 0
    then show ?thesis by simp
  next
    case (Suc j)
    with Cons.prems have "j < length ys" "ys ! j \<noteq> y" "distinct ys"
      by auto
    with Cons.IH[of j] Suc show ?thesis by simp
  qed
qed

lemma column_positions_nths:
  "distinct cols \<Longrightarrow> list_all (\<lambda>i. i < length cols) is \<Longrightarrow>
     column_positions cols (map ((!) cols) is) = Inr is"
  by (induction "is") (simp_all add: index_of_nth)

lemma column_positions_prefix:
  assumes "distinct (cols @ cs)"
  shows "column_positions (cols @ cs) cols = Inr [0..<length cols]"
proof -
  have "map ((!) (cols @ cs)) [0..<length cols] = cols"
    by (rule nth_equalityI) (simp_all add: nth_append)
  moreover have "list_all (\<lambda>i. i < length (cols @ cs)) [0..<length cols]"
    by (simp add: list_all_iff)
  ultimately show ?thesis
    using column_positions_nths[OF assms, of "[0..<length cols]"] by simp
qed

lemma row_without_last: "map ((!) (r @ [v])) [0..<length r] = r"
  by (rule nth_equalityI) (simp_all add: nth_append)

subsection \<open>Removing the rows where the machine is off\<close>

lemma machine_off_length:
  assumes "machine_off data threshold = Inr m"
  shows "length m = length (df_rows data)"
proof -
  have sel: "select_columns data names = Inr sel \<Longrightarrow> length (df_rows sel) = length (df_rows data)"
    for names sel
    by (auto simp: select_columns_def split: sum.splits)
  have app: "series_apply f xs = Inr ys \<Longrightarrow> length ys = length xs" for f :: "pyvalue list \<Rightarrow> error + bool"
    and xs ys
    by (drule series_apply_imp_list_all2) (rule list_all2_lengthD[symmetric])
  from assms show ?thesis
    by (auto simp: machine_off_def Let_def dest!: app dest: sel split: if_splits sum.splits)
qed

lemma kept_rows:
  assumes "length rows = length m" "list_all (\<lambda>r. length r = n) rows"
  shows "map (\<lambda>r. map ((!) r) [0..<n])
           (map fst (filter snd (zip (map2 (\<lambda>r v. r @ [v]) rows (map BoolV m)) (map Not m))))
         = map fst (filter (\<lambda>(r, off). \<not> off) (zip rows m))"
  using assms
proof (induction rows m rule: list_induct2)
  case Nil
  show ?case by simp
next
  case (Cons r rows b m)
  then have "length r = n" by simp
  then have "map ((!) (r @ [v])) [0..<n] = r" for v
    using row_without_last[of r v] by simp
  with Cons show ?case by simp
qed

lemma kept_labels:
  "map fst (filter snd (zip ls (map Not m))) = map fst (filter (\<lambda>(l, off). \<not> off) (zip ls m))"
proof (induction ls arbitrary: m)
  case Nil
  show ?case by simp
next
  case (Cons l ls)
  show ?case by (cases m) (simp_all add: Cons)
qed

lemma subseq_kept: "subseq (map fst (filter P (zip xs ys))) xs"
proof (induction xs arbitrary: ys)
  case Nil
  show ?case by simp
next
  case (Cons x xs)
  show ?case
    by (cases ys) (use Cons in \<open>auto intro: subseq_Cons'\<close>)
qed

lemma remove_machine_off_data_result:
  assumes wf: "wf_dataframe data"
    and fresh: "''machine_off'' \<notin> set (df_columns data)"
    and off: "machine_off data threshold = Inr m"
  shows "remove_machine_off_data data threshold =
     Inr (data\<lparr>df_index := map fst (filter (\<lambda>(l, off). \<not> off) (zip (df_index data) m)),
               df_rows := map fst (filter (\<lambda>(r, off). \<not> off) (zip (df_rows data) m))\<rparr>)"
proof -
  define n where "n = length (df_columns data)"
  define R1 where "R1 = map2 (\<lambda>r v. r @ [v]) (df_rows data) (map BoolV m)"
  define R2 where "R2 = map fst (filter snd (zip R1 (map Not m)))"
  define I2 where "I2 = map fst (filter snd (zip (df_index data) (map Not m)))"
  define D1 where "D1 = data\<lparr>df_columns := df_columns data @ [''machine_off''], df_rows := R1\<rparr>"
  define D2 where "D2 = D1\<lparr>df_index := I2, df_rows := R2\<rparr>"
  have len: "length (df_rows data) = length m"
    using machine_off_length[OF off] by simp
  have rows: "list_all (\<lambda>r. length r = n) (df_rows data)"
    using wf by (simp add: wf_dataframe_def n_def)
  have d: "distinct (df_columns data @ [''machine_off''])"
    using wf fresh by (simp add: wf_dataframe_def)
  have i: "index_of ''machine_off'' (df_columns data) = None"
    using fresh by (simp add: index_of_None)
  have data1: "set_column data ''machine_off'' (map BoolV m) = D1"
    by (simp add: set_column_def i D1_def R1_def)
  have data2: "filter_rows D1 (map Not m) = D2"
    by (simp add: filter_rows_def D2_def D1_def I2_def R2_def)
  have c1: "butlast (df_columns D1) = df_columns data"
    by (simp add: D1_def)
  have c2: "df_columns D2 = df_columns data @ [''machine_off'']" "df_rows D2 = R2"
    by (simp_all add: D2_def D1_def)
  have sel: "select_columns D2 (df_columns data)
               = Inr (D2\<lparr>df_columns := df_columns data,
                         df_rows := map (\<lambda>r. map ((!) r) [0..<n]) R2\<rparr>)"
    by (simp add: select_columns_def c2 column_positions_prefix[OF d] n_def)
  have K: "map (\<lambda>r. map ((!) r) [0..<n]) R2
             = map fst (filter (\<lambda>(r, off). \<not> off) (zip (df_rows data) m))"
    unfolding R2_def R1_def by (rule kept_rows[OF len rows])
  have L: "I2 = map fst (filter (\<lambda>(l, off). \<not> off) (zip (df_index data) m))"
    unfolding I2_def by (rule kept_labels)
  have "remove_machine_off_data data threshold = select_columns D2 (df_columns data)"
    by (simp add: remove_machine_off_data_def off data1 data2 c1)
  also have "\<dots> = Inr (data\<lparr>df_index := map fst (filter (\<lambda>(l, off). \<not> off) (zip (df_index data) m)),
               df_rows := map fst (filter (\<lambda>(r, off). \<not> off) (zip (df_rows data) m))\<rparr>)"
    unfolding sel K by (simp add: D2_def D1_def L)
  finally show ?thesis .
qed

text \<open>
  C9. The claim is stated for every input table. A table that already has a column
  \<open>machine_off\<close> is a table where it fails: the assignment overwrites that column in its
  place, and \<open>data.columns[:-1]\<close> then drops the last column of the input, whichever it
  is. Below, the input has the columns SensorDateTime, I1_A, machine_off and the result
  has only SensorDateTime and I1_A.
\<close>

theorem C9_counterexample_existing_column:
  "remove_machine_off_data
     \<lparr>df_index = [IntV 0], df_columns = [''SensorDateTime'', ''I1_A'', ''machine_off''],
       df_rows = [[StrV ''2017-10-02T00:00:00.000+02'', FloatV 1, BoolV False]]\<rparr> 0
   = Inr \<lparr>df_index = [IntV 0], df_columns = [''SensorDateTime'', ''I1_A''],
           df_rows = [[StrV ''2017-10-02T00:00:00.000+02'', FloatV 1]]\<rparr> \<and>
   [''SensorDateTime'', ''I1_A''] \<noteq> [''SensorDateTime'', ''I1_A'', ''machine_off'']"
  by (simp add: remove_machine_off_data_def machine_off_def select_columns_def abs_le_def
      set_column_def filter_rows_def)

text \<open>
  C9, amended. For a table with distinct column names, one cell per column in every
  row and no column named \<open>machine_off\<close>, and a threshold for which \<open>machine_off\<close>
  classifies the table without raising, \<open>remove_machine_off_data\<close> returns a table with
  exactly the columns of the input. Its rows and row labels are those of the input that
  are classified as not off, unchanged and in their original order, so they form a
  subsequence of the input rows.
\<close>

theorem C9_remove_machine_off_frame:
  assumes wf: "wf_dataframe data"
    and fresh: "''machine_off'' \<notin> set (df_columns data)"
    and off: "machine_off data threshold = Inr m"
  shows "\<exists>result. remove_machine_off_data data threshold = Inr result \<and>
           df_columns result = df_columns data \<and>
           df_rows result = map fst (filter (\<lambda>(r, off). \<not> off) (zip (df_rows data) m)) \<and>
           df_index result = map fst (filter (\<lambda>(l, off). \<not> off) (zip (df_index data) m)) \<and>
           subseq (df_rows result) (df_rows data) \<and>
           subseq (df_index result) (df_index data)"
  unfolding remove_machine_off_data_result[OF wf fresh off]
  by (simp add: subseq_kept)

theorem C9_remove_machine_off_frame_witness:
  "wf_dataframe
     \<lparr>df_index = [IntV 0, IntV 1, IntV 2, IntV 3], df_columns = [''SensorDateTime'', ''I1_A'', ''P_kW''],
       df_rows = [[StrV ''2017-10-02T00:00:00.000+02'', FloatV 0.2, FloatV 0],
                  [StrV ''2017-10-02T00:00:05.000+02'', FloatV 1.5, FloatV 0.3],
                  [StrV ''2017-10-02T00:00:10.000+02'', FloatV 0.1, FloatV 0],
                  [StrV ''2017-10-02T00:00:15.000+02'', FloatV 2, FloatV 0.4]]\<rparr> \<and>
   machine_off
     \<lparr>df_index = [IntV 0, IntV 1, IntV 2, IntV 3], df_columns = [''SensorDateTime'', ''I1_A'', ''P_kW''],
       df_rows = [[StrV ''2017-10-02T00:00:00.000+02'', FloatV 0.2, FloatV 0],
                  [StrV ''2017-10-02T00:00:05.000+02'', FloatV 1.5, FloatV 0.3],
                  [StrV ''2017-10-02T00:00:10.000+02'', FloatV 0.1, FloatV 0],
                  [StrV ''2017-10-02T00:00:15.000+02'', FloatV 2, FloatV 0.4]]\<rparr> 0.3
     = Inr [True, False, True, False] \<and>
   (\<exists>result.
      remove_machine_off_data
        \<lparr>df_index = [IntV 0, IntV 1, IntV 2, IntV 3], df_columns = [''SensorDateTime'', ''I1_A'', ''P_kW''],
          df_rows = [[StrV ''2017-10-02T00:00:00.000+02'', FloatV 0.2, FloatV 0],
                     [StrV ''2017-10-02T00:00:05.000+02'', FloatV 1.5, FloatV 0.3],
                     [StrV ''2017-10-02T00:00:10.000+02'', FloatV 0.1, FloatV 0],
                     [StrV ''2017-10-02T00:00:15.000+02'', FloatV 2, FloatV 0.4]]\<rparr> 0.3
        = Inr result \<and>
      df_columns result = [''SensorDateTime'', ''I1_A'', ''P_kW''] \<and>
      df_index result = [IntV 1, IntV 3] \<and>
      df_rows result = [[StrV ''2017-10-02T00:00:05.000+02'', FloatV 1.5, FloatV 0.3],
                        [StrV ''2017-10-02T00:00:15.000+02'', FloatV 2, FloatV 0.4]])"
proof -
  define T where "T = \<lparr>df_index = [IntV 0, IntV 1, IntV 2, IntV 3],
       df_columns = [''SensorDateTime'', ''I1_A'', ''P_kW''],
       df_rows = [[StrV ''2017-10-02T00:00:00.000+02'', FloatV 0.2, FloatV 0],
                  [StrV ''2017-10-02T00:00:05.000+02'', FloatV 1.5, FloatV 0.3],
                  [StrV ''2017-10-02T00:00:10.000+02'', FloatV 0.1, FloatV 0],
                  [StrV ''2017-10-02T00:00:15.000+02'', FloatV 2, FloatV 0.4]]\<rparr>"
  have wf: "wf_dataframe T"
    by (simp add: T_def wf_dataframe_def)
  have fresh: "''machine_off'' \<notin> set (df_columns T)"
    by (simp add: T_def)
  have off: "machine_off T 0.3 = Inr [True, False, True, False]"
    by (simp add: T_def machine_off_def select_columns_def abs_le_def)
  from C9_remove_machine_off_frame[OF wf fresh off]
  obtain result where r: "remove_machine_off_data T 0.3 = Inr result"
      "df_columns result = df_columns T"
      "df_rows result = map fst (filter (\<lambda>(r, off). \<not> off) (zip (df_rows T) [True, False, True, False]))"
      "df_index result = map fst (filter (\<lambda>(l, off). \<not> off) (zip (df_index T) [True, False, True, False]))"
    by blast
  have "df_columns result = [''SensorDateTime'', ''I1_A'', ''P_kW'']"
    "df_index result = [IntV 1, IntV 3]"
    "df_rows result = [[StrV ''2017-10-02T00:00:05.000+02'', FloatV 1.5, FloatV 0.3],
                        [StrV ''2017-10-02T00:00:15.000+02'', FloatV 2, FloatV 0.4]]"
    unfolding r by (simp_all add: T_def)
  with wf off r(1) show ?thesis
    unfolding T_def by blast
qed

section \<open>Feature calculators on the empty sequence\<close>

text \<open>
  \<open>num_maxima\<close> and \<open>num_minima\<close> compare the extreme value with NaN by \<open>!=\<close>, which is
  always true, so their NaN branch is never taken: on a Series without elements they
  return 0, and on a list or an array without elements \<open>np.max\<close> and \<open>np.min\<close> raise.
\<close>

lemma num_maxima_empty:
  "num_maxima (PyList []) = Inl ValueError" "num_maxima (NdArray []) = Inl ValueError"
  "num_maxima (PdSeries []) = Inr (IntV 0)"
  "num_minima (PyList []) = Inl ValueError" "num_minima (NdArray []) = Inl ValueError"
  "num_minima (PdSeries []) = Inr (IntV 0)"
  by (simp_all add: num_maxima_def num_minima_def float_ne_def count_equal_def)

lemma number_crossing_mean_empty:
  "elements x = [] \<Longrightarrow> number_crossing_mean number_crossing_m x = number_crossing_m (as_array x) NaN"
  by (cases x) (simp_all add: number_crossing_mean_def np_mean_def)

lemma elements_as_array: "elements (as_array x) = elements x"
  by (cases x) simp_all

text \<open>
  C1. The claim names \<open>num_states\<close> among the calculators that return the sentinel on
  the empty sequence. \<open>num_states\<close> counts the distinct values, and for the empty
  sequence the count is 0, not NaN.
\<close>

theorem C1_counterexample_num_states:
  "num_states (PyList []) = Inr (IntV 0) \<and> num_states (PyList []) \<noteq> Inr NaN"
  by (simp add: num_states_def)

text \<open>
  C1, amended. On a sequence without elements (a list, an array or a Series), the
  calculators that divide by the number of elements, \<open>crest_factor\<close>,
  \<open>percentage_non_zero_values\<close>, \<open>linear_weighted_average\<close> and
  \<open>quadratic_weighted_average\<close>, return NaN, and \<open>num_states\<close> returns 0; none of them
  raises.
\<close>

theorem C1_empty_sequence:
  assumes "elements x = []"
  shows "crest_factor x = Inr NaN \<and>
         percentage_non_zero_values x = Inr NaN \<and>
         linear_weighted_average x = Inr NaN \<and>
         quadratic_weighted_average x = Inr NaN \<and>
         num_states x = Inr (IntV 0)"
  using assms
  by (simp add: crest_factor_def percentage_non_zero_values_def linear_weighted_average_def
      quadratic_weighted_average_def num_states_def np_mean_def elements_as_array)

theorem C1_empty_sequence_witness:
  "elements (PyList []) = [] \<and>
   crest_factor (PyList []) = Inr NaN \<and>
   percentage_non_zero_values (PyList []) = Inr NaN \<and>
   linear_weighted_average (PyList []) = Inr NaN \<and>
   quadratic_weighted_average (PyList []) = Inr NaN \<and>
   num_states (PyList []) = Inr (IntV 0)"
proof -
  have e: "elements (PyList []) = []"
    by simp
  from C1_empty_sequence[OF e] e show ?thesis
    by blast
qed

end
